theory Spec2Isabelle
  imports Main "HOL-Library.AList"
begin

section \<open>JavaScript values\<close>

text \<open>
  A JavaScript \<^verbatim>\<open>number\<close> that holds an identifier is modelled as \<open>int option\<close>: \<open>None\<close> is
  \<^verbatim>\<open>NaN\<close>. The model is exact for the decimal integers that OOXML identifiers are
  (below \<open>2^53\<close>, where IEEE doubles are exact); \<open>toNumber\<close> reads every other string
  (fractions, exponents, radix prefixes, surrounding white space) as \<^verbatim>\<open>NaN\<close>.
  A value of type \<^verbatim>\<open>string | null\<close> is a \<open>string option\<close>; strings are lists of
  \<open>char\<close> standing for UTF-16 code units.
\<close>

type_synonym jsnum = "int option"

definition truthy :: "string option \<Rightarrow> bool" where
  "truthy v = (case v of None \<Rightarrow> False | Some s \<Rightarrow> s \<noteq> [])"

text \<open>\<^verbatim>\<open>a || b\<close> on strings and null.\<close>

definition jsOr :: "string option \<Rightarrow> string option \<Rightarrow> string option" where
  "jsOr a b = (if truthy a then a else b)"

text \<open>\<^verbatim>\<open>a || ''\<close> and string conversion of \<^verbatim>\<open>string | null\<close> (in a concatenation or an attribute value).\<close>

definition orEmpty :: "string option \<Rightarrow> string" where
  "orEmpty v = (case v of None \<Rightarrow> [] | Some s \<Rightarrow> s)"

definition jsStr :: "string option \<Rightarrow> string" where
  "jsStr v = (case v of None \<Rightarrow> ''null'' | Some s \<Rightarrow> s)"

definition isDigit :: "char \<Rightarrow> bool" where
  "isDigit c = (c \<in> set ''0123456789'')"

definition digitVal :: "char \<Rightarrow> nat" where
  "digitVal c = of_char c - 48"

definition digitChar :: "nat \<Rightarrow> char" where
  "digitChar d = ''0123456789'' ! d"

fun natToString :: "nat \<Rightarrow> string" where
  "natToString n = (if n < 10 then [digitChar n] else natToString (n div 10) @ [digitChar (n mod 10)])"

declare natToString.simps [simp del]

text \<open>\<^verbatim>\<open>String(v)\<close> and the number in a template literal.\<close>

definition jsString :: "jsnum \<Rightarrow> string" where
  "jsString v = (case v of None \<Rightarrow> ''NaN''
     | Some i \<Rightarrow> if i < 0 then CHR ''-'' # natToString (nat (- i)) else natToString (nat i))"

definition parseNat :: "string \<Rightarrow> nat" where
  "parseNat s = fold (\<lambda>c acc. acc * 10 + digitVal c) s 0"

definition allDigits :: "string \<Rightarrow> bool" where
  "allDigits s = (s \<noteq> [] \<and> list_all isDigit s)"

text \<open>The unary plus \<^verbatim>\<open>+(s)\<close> on a string.\<close>

definition toNumber :: "string \<Rightarrow> jsnum" where
  "toNumber s =
     (if s = [] then Some 0
      else if allDigits s then Some (int (parseNat s))
      else if hd s = CHR ''-'' \<and> allDigits (tl s) then Some (- int (parseNat (tl s)))
      else if hd s = CHR ''+'' \<and> allDigits (tl s) then Some (int (parseNat (tl s)))
      else None)"

text \<open>\<^verbatim>\<open>Math.max(0, ...ids)\<close>: \<^verbatim>\<open>NaN\<close> as soon as one argument is.\<close>

fun jsMax0 :: "jsnum list \<Rightarrow> jsnum" where
  "jsMax0 [] = Some 0"
| "jsMax0 (v # vs) = (case v of None \<Rightarrow> None
     | Some i \<Rightarrow> (case jsMax0 vs of None \<Rightarrow> None | Some m \<Rightarrow> Some (max i m)))"

text \<open>\<^verbatim>\<open>++x\<close>.\<close>

definition jsInc :: "jsnum \<Rightarrow> jsnum" where
  "jsInc v = map_option (\<lambda>i. i + 1) v"

text \<open>\<^verbatim>\<open>v < 0\<close> and \<^verbatim>\<open>v >= 0\<close>, both false on \<^verbatim>\<open>NaN\<close>.\<close>

definition jsNeg :: "jsnum \<Rightarrow> bool" where
  "jsNeg v = (case v of None \<Rightarrow> False | Some i \<Rightarrow> i < 0)"

definition jsNonNeg :: "jsnum \<Rightarrow> bool" where
  "jsNonNeg v = (case v of None \<Rightarrow> False | Some i \<Rightarrow> 0 \<le> i)"

text \<open>A \<^verbatim>\<open>Map<number, number>\<close>: \<open>AList.update\<close> is \<^verbatim>\<open>set\<close>, \<open>map_of\<close> is \<^verbatim>\<open>get\<close>.\<close>

type_synonym idmap = "(jsnum \<times> jsnum) list"

subsection \<open>String methods\<close>

definition startsWith :: "string \<Rightarrow> string \<Rightarrow> bool" where
  "startsWith s p = (take (length p) s = p)"

definition endsWith :: "string \<Rightarrow> string \<Rightarrow> bool" where
  "endsWith s p = (length p \<le> length s \<and> drop (length s - length p) s = p)"

fun indexOfFrom :: "string \<Rightarrow> string \<Rightarrow> nat \<Rightarrow> int" where
  "indexOfFrom [] sub i = (if sub = [] then int i else - 1)"
| "indexOfFrom (c # cs) sub i = (if startsWith (c # cs) sub then int i else indexOfFrom cs sub (Suc i))"

definition indexOf :: "string \<Rightarrow> string \<Rightarrow> int" where
  "indexOf s sub = indexOfFrom s sub 0"

definition includes_str :: "string \<Rightarrow> string \<Rightarrow> bool" where
  "includes_str s sub = (0 \<le> indexOf s sub)"

definition lastIndexOf :: "string \<Rightarrow> char \<Rightarrow> int" where
  "lastIndexOf s c =
     (if c \<in> set s then int (length s) - 1 - int (length (takeWhile (\<lambda>x. x \<noteq> c) (rev s))) else - 1)"

text \<open>\<^verbatim>\<open>s.substring(a, b)\<close> for \<open>0 \<le> a \<le> b\<close> and \<^verbatim>\<open>s.substring(a)\<close> for \<open>0 \<le> a\<close>, the only uses.\<close>

definition substring :: "string \<Rightarrow> int \<Rightarrow> int \<Rightarrow> string" where
  "substring s a b = take (nat b - nat a) (drop (nat a) s)"

definition substringFrom :: "string \<Rightarrow> int \<Rightarrow> string" where
  "substringFrom s a = drop (nat a) s"

fun splitOn :: "char \<Rightarrow> string \<Rightarrow> string list" where
  "splitOn c [] = [[]]"
| "splitOn c (x # xs) =
     (if x = c then [] # splitOn c xs
      else (case splitOn c xs of [] \<Rightarrow> [[x]] | s # ss \<Rightarrow> (x # s) # ss))"

fun joinWith :: "char \<Rightarrow> string list \<Rightarrow> string" where
  "joinWith c [] = []"
| "joinWith c [s] = s"
| "joinWith c (s # t # ss) = s @ c # joinWith c (t # ss)"

text \<open>\<^verbatim>\<open>toLowerCase\<close> on the ASCII letters (other code units are left as they are).\<close>

definition toLowerChar :: "char \<Rightarrow> char" where
  "toLowerChar c =
     (case map_of (zip ''ABCDEFGHIJKLMNOPQRSTUVWXYZ'' ''abcdefghijklmnopqrstuvwxyz'') c of
        None \<Rightarrow> c | Some d \<Rightarrow> d)"

definition toLowerCase :: "string \<Rightarrow> string" where
  "toLowerCase s = map toLowerChar s"

section \<open>XML trees and the DOM operations of the merger\<close>

text \<open>
  An attribute has a namespace URI (empty for none), a prefix (empty for none), a local
  name and a value. A node is an element (namespace URI, prefix, local name, attributes,
  children), a text node, or another node (comment, processing instruction). A document
  is given by its root element. \<^verbatim>\<open>importNode(n, true)\<close> is a deep copy, the identity on
  values.
\<close>

datatype xattr = Attr (ans: string) (aprefix: string) (alocal: string) (aval: string)

datatype xnode =
    Elem string string string "xattr list" "xnode list"
  | Txt string
  | Misc string

type_synonym path = "nat list"

definition aname :: "xattr \<Rightarrow> string" where
  "aname a = (if aprefix a = [] then alocal a else aprefix a @ CHR '':'' # alocal a)"

fun attrsOf :: "xnode \<Rightarrow> xattr list" where
  "attrsOf (Elem ns pre l as ks) = as"
| "attrsOf (Txt s) = []"
| "attrsOf (Misc s) = []"

fun kidsOf :: "xnode \<Rightarrow> xnode list" where
  "kidsOf (Elem ns pre l as ks) = ks"
| "kidsOf (Txt s) = []"
| "kidsOf (Misc s) = []"

text \<open>\<^verbatim>\<open>nodeType === 1\<close>.\<close>

fun isElem :: "xnode \<Rightarrow> bool" where
  "isElem (Elem ns pre l as ks) = True"
| "isElem (Txt s) = False"
| "isElem (Misc s) = False"

text \<open>The test of \<^verbatim>\<open>getElementsByTagNameNS(ns, l)\<close> and of \<^verbatim>\<open>getElementsByTagName(q)\<close>.\<close>

fun hasTag :: "string \<Rightarrow> string \<Rightarrow> xnode \<Rightarrow> bool" where
  "hasTag ns l (Elem ens pre el as ks) = (ens = ns \<and> el = l)"
| "hasTag ns l (Txt s) = False"
| "hasTag ns l (Misc s) = False"

fun hasQName :: "string \<Rightarrow> xnode \<Rightarrow> bool" where
  "hasQName q (Elem ens pre el as ks) = ((if pre = [] then el else pre @ CHR '':'' # el) = q)"
| "hasQName q (Txt s) = False"
| "hasQName q (Misc s) = False"

fun mapAttrs :: "(xattr list \<Rightarrow> xattr list) \<Rightarrow> xnode \<Rightarrow> xnode" where
  "mapAttrs g (Elem ns pre l as ks) = Elem ns pre l (g as) ks"
| "mapAttrs g (Txt s) = Txt s"
| "mapAttrs g (Misc s) = Misc s"

fun mapKids :: "(xnode list \<Rightarrow> xnode list) \<Rightarrow> xnode \<Rightarrow> xnode" where
  "mapKids g (Elem ns pre l as ks) = Elem ns pre l as (g ks)"
| "mapKids g (Txt s) = Txt s"
| "mapKids g (Misc s) = Misc s"

subsection \<open>Attributes\<close>

definition getAttributeNS :: "xnode \<Rightarrow> string \<Rightarrow> string \<Rightarrow> string option" where
  "getAttributeNS n ns l = map_option aval (find (\<lambda>a. ans a = ns \<and> alocal a = l) (attrsOf n))"

definition getAttribute :: "xnode \<Rightarrow> string \<Rightarrow> string option" where
  "getAttribute n q = map_option aval (find (\<lambda>a. aname a = q) (attrsOf n))"

text \<open>
  \<^verbatim>\<open>setAttributeNS(ns, 'pre:l', v)\<close>: the attribute with this namespace and local name
  gets the value (and keeps its prefix); when there is none, a new attribute is appended.
\<close>

fun setAttrNS :: "string \<Rightarrow> string \<Rightarrow> string \<Rightarrow> string \<Rightarrow> xattr list \<Rightarrow> xattr list" where
  "setAttrNS ns pre l v [] = [Attr ns pre l v]"
| "setAttrNS ns pre l v (a # as) =
     (if ans a = ns \<and> alocal a = l then Attr (ans a) (aprefix a) (alocal a) v # as
      else a # setAttrNS ns pre l v as)"

definition setAttributeNS :: "xnode \<Rightarrow> string \<Rightarrow> string \<Rightarrow> string \<Rightarrow> string \<Rightarrow> xnode" where
  "setAttributeNS n ns pre l v = mapAttrs (setAttrNS ns pre l v) n"

text \<open>\<^verbatim>\<open>setAttribute(q, v)\<close>: by qualified name; a new attribute has no namespace.\<close>

fun setAttr :: "string \<Rightarrow> string \<Rightarrow> xattr list \<Rightarrow> xattr list" where
  "setAttr q v [] = [Attr [] [] q v]"
| "setAttr q v (a # as) =
     (if aname a = q then Attr (ans a) (aprefix a) (alocal a) v # as else a # setAttr q v as)"

definition setAttribute :: "xnode \<Rightarrow> string \<Rightarrow> string \<Rightarrow> xnode" where
  "setAttribute n q v = mapAttrs (setAttr q v) n"

fun removeAttrNS :: "string \<Rightarrow> string \<Rightarrow> xattr list \<Rightarrow> xattr list" where
  "removeAttrNS ns l [] = []"
| "removeAttrNS ns l (a # as) =
     (if ans a = ns \<and> alocal a = l then as else a # removeAttrNS ns l as)"

definition removeAttributeNS :: "xnode \<Rightarrow> string \<Rightarrow> string \<Rightarrow> xnode" where
  "removeAttributeNS n ns l = mapAttrs (removeAttrNS ns l) n"

subsection \<open>Descendants, in document order\<close>

text \<open>
  \<open>descs n\<close> are the descendant elements of \<open>n\<close> in document order (the tree walker of
  \<^verbatim>\<open>descendants\<close>), \<open>descPaths n\<close> their positions: the path \<open>[i, j]\<close> is child \<open>j\<close> of child
  \<open>i\<close>. A position stands for the identity of a DOM node.
\<close>

fun descs :: "xnode \<Rightarrow> xnode list" and descsKids :: "xnode list \<Rightarrow> xnode list" where
  "descs (Elem ns pre l as ks) = descsKids ks"
| "descs (Txt s) = []"
| "descs (Misc s) = []"
| "descsKids [] = []"
| "descsKids (k # ks) = (if isElem k then [k] else []) @ descs k @ descsKids ks"

fun descPaths :: "xnode \<Rightarrow> path list" and kidsPaths :: "nat \<Rightarrow> xnode list \<Rightarrow> path list" where
  "descPaths (Elem ns pre l as ks) = kidsPaths 0 ks"
| "descPaths (Txt s) = []"
| "descPaths (Misc s) = []"
| "kidsPaths i [] = []"
| "kidsPaths i (k # ks) =
     (if isElem k then [[i]] else []) @ map ((#) i) (descPaths k) @ kidsPaths (Suc i) ks"

fun nodeAt :: "xnode \<Rightarrow> path \<Rightarrow> xnode option" where
  "nodeAt n [] = Some n"
| "nodeAt n (i # p) = (if i < length (kidsOf n) then nodeAt (kidsOf n ! i) p else None)"

definition tagAt :: "string \<Rightarrow> string \<Rightarrow> xnode \<Rightarrow> path \<Rightarrow> bool" where
  "tagAt ns l n p = (case nodeAt n p of None \<Rightarrow> False | Some x \<Rightarrow> hasTag ns l x)"

text \<open>\<^verbatim>\<open>el.getElementsByTagNameNS(ns, l)\<close> on an element: values and positions.\<close>

definition elementsByTagNameNS :: "xnode \<Rightarrow> string \<Rightarrow> string \<Rightarrow> xnode list" where
  "elementsByTagNameNS n ns l = filter (hasTag ns l) (descs n)"

definition tagPaths :: "string \<Rightarrow> string \<Rightarrow> xnode \<Rightarrow> path list" where
  "tagPaths ns l n = filter (tagAt ns l n) (descPaths n)"

text \<open>
  On a document the root element is a candidate too:
  \<^verbatim>\<open>doc.getElementsByTagNameNS(ns, l)\<close> and \<^verbatim>\<open>doc.getElementsByTagName(q)\<close>.
\<close>

definition docElementsByTagNameNS :: "xnode \<Rightarrow> string \<Rightarrow> string \<Rightarrow> xnode list" where
  "docElementsByTagNameNS root ns l = filter (hasTag ns l) (root # descs root)"

definition docTagPaths :: "string \<Rightarrow> string \<Rightarrow> xnode \<Rightarrow> path list" where
  "docTagPaths ns l root = filter (tagAt ns l root) ([] # descPaths root)"

definition docElementsByTagName :: "xnode \<Rightarrow> string \<Rightarrow> xnode list" where
  "docElementsByTagName root q = filter (hasQName q) (root # descs root)"

text \<open>\<^verbatim>\<open>textContent\<close>: the text nodes below, in order.\<close>

fun textContent :: "xnode \<Rightarrow> string" where
  "textContent (Elem ns pre l as ks) = concat (map textContent ks)"
| "textContent (Txt s) = s"
| "textContent (Misc s) = []"

subsection \<open>Mutation at a position\<close>

fun updAt :: "path \<Rightarrow> (xnode \<Rightarrow> xnode) \<Rightarrow> xnode \<Rightarrow> xnode" where
  "updAt [] f n = f n"
| "updAt (i # p) f n =
     (if i < length (kidsOf n) then mapKids (\<lambda>ks. ks[i := updAt p f (ks ! i)]) n else n)"


text \<open>\<^verbatim>\<open>parent.appendChild(n)\<close> for a node \<open>n\<close> that is in no tree.\<close>

definition appendChild :: "xnode \<Rightarrow> xnode \<Rightarrow> xnode" where
  "appendChild parent n = mapKids (\<lambda>ks. ks @ [n]) parent"

section \<open>Packages\<close>

text \<open>
  A package (the JSZip object) maps part paths to contents. A part whose text parses as
  XML is held as its tree, so that \<^verbatim>\<open>parseXml\<close> after \<^verbatim>\<open>serialize\<close> is the identity; any
  other part is opaque (\<open>Bin\<close>), and parsing it raises the parser error.
  \<^verbatim>\<open>zip.file(path)\<close> is \<open>map_of\<close>, \<^verbatim>\<open>zip.file(path, data)\<close> is \<open>AList.update\<close>.
\<close>

datatype part = Xml xnode | Bin string

type_synonym zip = "(string \<times> part) list"

datatype error =
    InsufficientSources
  | NoInsertionMode
  | MissingPart string
  | XmlParseError
  | NoInsertionPerformed
  | TypeError
  | NotFoundError

definition NS_w :: string where
  "NS_w = ''http://schemas.openxmlformats.org/wordprocessingml/2006/main''"

definition NS_r :: string where
  "NS_r = ''http://schemas.openxmlformats.org/officeDocument/2006/relationships''"

definition NS_pr :: string where
  "NS_pr = ''http://schemas.openxmlformats.org/package/2006/relationships''"

text \<open>The namespace of the \<^verbatim>\<open>xmlns\<close> declarations, which the DOM holds as attributes.\<close>

definition NS_xmlns :: string where
  "NS_xmlns = ''http://www.w3.org/2000/xmlns/''"

definition P_document :: string where "P_document = ''word/document.xml''"
definition P_docRels :: string where "P_docRels = ''word/_rels/document.xml.rels''"
definition P_numbering :: string where "P_numbering = ''word/numbering.xml''"
definition P_styles :: string where "P_styles = ''word/styles.xml''"
definition P_footnotes :: string where "P_footnotes = ''word/footnotes.xml''"
definition P_endnotes :: string where "P_endnotes = ''word/endnotes.xml''"
definition P_fontTable :: string where "P_fontTable = ''word/fontTable.xml''"
definition P_theme :: string where "P_theme = ''word/theme/theme1.xml''"
definition P_webSettings :: string where "P_webSettings = ''word/webSettings.xml''"
definition P_settings :: string where "P_settings = ''word/settings.xml''"
definition P_ct :: string where "P_ct = ''[Content_Types].xml''"

definition readXml :: "zip \<Rightarrow> string \<Rightarrow> error + xnode" where
  "readXml z path =
     (case map_of z path of
        None \<Rightarrow> Inl (MissingPart path)
      | Some (Xml t) \<Rightarrow> Inr t
      | Some (Bin b) \<Rightarrow> Inl XmlParseError)"

definition readXmlOrCreate :: "zip \<Rightarrow> string \<Rightarrow> xnode \<Rightarrow> error + xnode" where
  "readXmlOrCreate z path fallback =
     (case map_of z path of
        None \<Rightarrow> Inr fallback
      | Some (Xml t) \<Rightarrow> Inr t
      | Some (Bin b) \<Rightarrow> Inl XmlParseError)"

definition writeXml :: "zip \<Rightarrow> string \<Rightarrow> xnode \<Rightarrow> zip" where
  "writeXml z path t = AList.update path (Xml t) z"

text \<open>The skeletons, as the parser reads them (a namespace declaration is an attribute).\<close>

definition wSkeleton :: "string \<Rightarrow> xnode" where
  "wSkeleton l = Elem NS_w ''w'' l [Attr NS_xmlns ''xmlns'' ''w'' NS_w] []"

definition relsSkeleton :: xnode where
  "relsSkeleton = Elem NS_pr [] ''Relationships'' [Attr NS_xmlns [] ''xmlns'' NS_pr] []"

definition numberingSkeleton :: xnode where "numberingSkeleton = wSkeleton ''numbering''"
definition stylesSkeleton :: xnode where "stylesSkeleton = wSkeleton ''styles''"
definition footnotesSkeleton :: xnode where "footnotesSkeleton = wSkeleton ''footnotes''"
definition endnotesSkeleton :: xnode where "endnotesSkeleton = wSkeleton ''endnotes''"
definition fontTableSkeleton :: xnode where "fontTableSkeleton = wSkeleton ''fonts''"
definition webSettingsSkeleton :: xnode where "webSettingsSkeleton = wSkeleton ''webSettings''"
definition settingsSkeleton :: xnode where "settingsSkeleton = wSkeleton ''settings''"

section \<open>Relationships\<close>

definition findRelationshipById :: "xnode \<Rightarrow> string \<Rightarrow> xnode option" where
  "findRelationshipById relXml rid =
     find (\<lambda>el. getAttribute el ''Id'' = Some rid) (docElementsByTagNameNS relXml NS_pr ''Relationship'')"

definition findRelationshipByTypeAndTarget ::
    "xnode \<Rightarrow> string option \<Rightarrow> string option \<Rightarrow> string option \<Rightarrow> xnode option" where
  "findRelationshipByTypeAndTarget relXml type target mode =
     find (\<lambda>el. getAttribute el ''Type'' = type \<and> getAttribute el ''Target'' = target
                \<and> orEmpty (getAttribute el ''TargetMode'') = orEmpty mode)
       (docElementsByTagNameNS relXml NS_pr ''Relationship'')"

definition addRelationship ::
    "xnode \<Rightarrow> string \<Rightarrow> string option \<Rightarrow> string option \<Rightarrow> string option \<Rightarrow> xnode" where
  "addRelationship relXml rid type target mode =
     (let rel0 = Elem NS_pr [] ''Relationship'' [] [];
          rel1 = setAttribute rel0 ''Id'' rid;
          rel2 = setAttribute rel1 ''Type'' (jsStr type);
          rel3 = setAttribute rel2 ''Target'' (jsStr target);
          rel4 = (if truthy mode then setAttribute rel3 ''TargetMode'' (orEmpty mode) else rel3)
      in appendChild relXml rel4)"

subsection \<open>The relationship-ID allocator\<close>

text \<open>
  \<^verbatim>\<open>/rId(\d+)/.exec(s)\<close>: the leftmost \<^verbatim>\<open>rId\<close> that a digit follows, and the digits after
  it. The pattern is not anchored.
\<close>

fun ridMatch :: "string \<Rightarrow> string option" where
  "ridMatch [] = None"
| "ridMatch (c # cs) =
     (if startsWith (c # cs) ''rId'' \<and> takeWhile isDigit (drop 3 (c # cs)) \<noteq> []
      then Some (takeWhile isDigit (drop 3 (c # cs)))
      else ridMatch cs)"

text \<open>The loop of the allocator over the entries, from the running maximum.\<close>

fun ridMax :: "int \<Rightarrow> xnode list \<Rightarrow> int" where
  "ridMax m [] = m"
| "ridMax m (el # els) =
     (case ridMatch (orEmpty (getAttribute el ''Id'')) of
        None \<Rightarrow> ridMax m els
      | Some ds \<Rightarrow> ridMax (max m (int (parseNat ds))) els)"

text \<open>One call of the function that \<^verbatim>\<open>makeRidAllocator(relXml)\<close> returns, on the current tree.\<close>

definition makeRidAllocator :: "xnode \<Rightarrow> string" where
  "makeRidAllocator relXml =
     ''rId'' @ jsString (Some (ridMax 0 (docElementsByTagNameNS relXml NS_pr ''Relationship'') + 1))"

section \<open>Paths of parts\<close>

text \<open>\<^verbatim>\<open>s.substring(0, s.lastIndexOf('/') + 1)\<close>.\<close>

definition dirName :: "string \<Rightarrow> string" where
  "dirName s = substring s 0 (lastIndexOf s CHR ''/'' + 1)"

fun normalizeSegs :: "string list \<Rightarrow> string list \<Rightarrow> string list" where
  "normalizeSegs out [] = out"
| "normalizeSegs out (seg # segs) =
     (if seg = ''..'' then normalizeSegs (butlast out) segs
      else if seg = ''.'' \<or> seg = [] then normalizeSegs out segs
      else normalizeSegs (out @ [seg]) segs)"

definition normalizePath :: "string \<Rightarrow> string \<Rightarrow> string" where
  "normalizePath base target =
     joinWith CHR ''/'' (normalizeSegs [] (splitOn CHR ''/'' (dirName base @ target)))"

definition canonicalizeMediaPath :: "string \<Rightarrow> string" where
  "canonicalizeMediaPath p =
     (if startsWith p ''word/media/'' then p
      else let idx = indexOf p ''word/'' in
        if 0 \<le> idx then
          (let rest = substringFrom p (idx + 5) in
           if startsWith rest ''media/'' then ''word/'' @ rest else p)
        else p)"

definition relativeTo :: "string \<Rightarrow> string \<Rightarrow> string" where
  "relativeTo from to =
     (let fromDir = dirName from in
      if startsWith to fromDir then substringFrom to (int (length fromDir)) else to)"

text \<open>The pair \<open>(name, ext)\<close>.\<close>

definition splitNameExt :: "string \<Rightarrow> string \<times> string" where
  "splitNameExt path =
     (let i = lastIndexOf path CHR ''.'' in
      (if 0 \<le> i then substring path 0 i else path,
       if 0 \<le> i then toLowerCase (substringFrom path (i + 1)) else []))"

text \<open>\<^verbatim>\<open>replace(/[^A-Za-z0-9_\-]/g, '_')\<close>.\<close>

definition sanitizeName :: "string \<Rightarrow> string" where
  "sanitizeName s =
     map (\<lambda>c. if c \<in> set ''ABCDEFGHIJKLMNOPQRSTUVWXYZabcdefghijklmnopqrstuvwxyz0123456789_-''
              then c else CHR ''_'') s"

subsection \<open>Printing and reading decimal numbers\<close>

lemma digitChar_cases:
  assumes "d < 10"
  shows "d = 0 \<or> d = 1 \<or> d = 2 \<or> d = 3 \<or> d = 4 \<or> d = 5 \<or> d = 6 \<or> d = 7 \<or> d = 8 \<or> d = (9::nat)"
  using assms by arith

lemma digitVal_digitChar: "d < 10 \<Longrightarrow> digitVal (digitChar d) = d"
  using digitChar_cases [of d] by (auto simp: digitVal_def digitChar_def)

lemma isDigit_digitChar: "d < 10 \<Longrightarrow> isDigit (digitChar d)"
  using digitChar_cases [of d] by (auto simp: isDigit_def digitChar_def)

lemma natToString_digits: "list_all isDigit (natToString n)"
proof (induction n rule: natToString.induct)
  case (1 n)
  show ?case
  proof (cases "n < 10")
    case True
    then show ?thesis by (simp add: natToString.simps [of n] isDigit_digitChar)
  next
    case False
    with 1 show ?thesis by (simp add: natToString.simps [of n] isDigit_digitChar)
  qed
qed

lemma natToString_nonempty: "natToString n \<noteq> []"
  by (subst natToString.simps) simp


lemma parseNat_snoc: "parseNat (s @ [c]) = parseNat s * 10 + digitVal c"
  by (simp add: parseNat_def)

lemma parseNat_natToString: "parseNat (natToString n) = n"
proof (induction n rule: natToString.induct)
  case (1 n)
  show ?case
  proof (cases "n < 10")
    case True
    then show ?thesis
      by (simp add: natToString.simps [of n] parseNat_def digitVal_digitChar)
  next
    case False
    then have "parseNat (natToString (n div 10)) = n div 10" using 1 by simp
    with False show ?thesis
      by (simp add: natToString.simps [of n] parseNat_snoc digitVal_digitChar)
  qed
qed

lemma natToString_inj: "natToString m = natToString n \<Longrightarrow> m = n"
  by (metis parseNat_natToString)



subsection \<open>Collision-free paths\<close>

text \<open>
  The \<^verbatim>\<open>do { ... } while (zip.file(out))\<close> loops of \<^verbatim>\<open>uniqueMediaName\<close> and
  \<^verbatim>\<open>uniquePartPath\<close>: the candidate is \<open>pre @ i @ suf\<close> for the counter \<open>i\<close>. The loop ends
  because a package has finitely many parts and the candidates are pairwise different.
\<close>

function uniqueLoop :: "zip \<Rightarrow> string \<Rightarrow> string \<Rightarrow> nat \<Rightarrow> string" where
  "uniqueLoop z pre suf i =
     (if map_of z (pre @ natToString i @ suf) \<noteq> None then uniqueLoop z pre suf (Suc i)
      else pre @ natToString i @ suf)"
  by pat_completeness auto
termination
proof (relation "measure (\<lambda>(z, pre, suf, i). card {j. i \<le> j \<and> pre @ natToString j @ suf \<in> fst ` set z})")
  show "wf (measure (\<lambda>(z, pre, suf, i). card {j. i \<le> j \<and> pre @ natToString j @ suf \<in> fst ` set z}))"
    by simp
next
  fix z :: zip and pre suf :: string and i :: nat
  assume taken: "map_of z (pre @ natToString i @ suf) \<noteq> None"
  let ?S = "\<lambda>i. {j. i \<le> j \<and> pre @ natToString j @ suf \<in> fst ` set z}"
  have inj: "inj (\<lambda>j. pre @ natToString j @ suf)"
    by (rule injI) (simp add: natToString_inj)
  have "?S i \<subseteq> (\<lambda>j. pre @ natToString j @ suf) -` (fst ` set z)" by auto
  moreover have "finite ((\<lambda>j. pre @ natToString j @ suf) -` (fst ` set z))"
    by (rule finite_vimageI [OF _ inj]) simp
  ultimately have fin: "finite (?S i)" by (rule finite_subset)
  have mem: "i \<in> ?S i" using taken by (simp add: map_of_eq_None_iff)
  have "i \<notin> ?S (Suc i)" by simp
  moreover have "?S (Suc i) \<subseteq> ?S i" by auto
  ultimately have "?S (Suc i) \<subset> ?S i" using mem by blast
  then have "card (?S (Suc i)) < card (?S i)" using fin by (rule psubset_card_mono [rotated])
  then show "((z, pre, suf, Suc i), (z, pre, suf, i))
      \<in> measure (\<lambda>(z, pre, suf, i). card {j. i \<le> j \<and> pre @ natToString j @ suf \<in> fst ` set z})"
    by simp
qed

declare uniqueLoop.simps [simp del]

definition uniqueMediaName :: "zip \<Rightarrow> string \<Rightarrow> string \<Rightarrow> string" where
  "uniqueMediaName z baseName ext =
     (let base = sanitizeName (substringFrom baseName (lastIndexOf baseName CHR ''/'' + 1))
      in uniqueLoop z (''word/media/merged_'' @ base @ ''_'') (CHR ''.'' # ext) 1)"

definition uniquePartPath :: "zip \<Rightarrow> string \<Rightarrow> string" where
  "uniquePartPath z srcFull =
     (let i = lastIndexOf srcFull CHR ''.'';
          ext = (if 0 \<le> i then substringFrom srcFull i else []);
          stem = (if 0 \<le> i then substring srcFull 0 i else srcFull)
      in uniqueLoop z (stem @ ''_merged_'') ext 1)"

section \<open>Content types\<close>

definition contentTypeMap :: "(string \<times> string) list" where
  "contentTypeMap =
     [(''bmp'', ''image/bmp''), (''gif'', ''image/gif''), (''jpg'', ''image/jpeg''),
      (''jpeg'', ''image/jpeg''), (''png'', ''image/png''), (''tif'', ''image/tiff''),
      (''tiff'', ''image/tiff''), (''emf'', ''image/x-emf''), (''wmf'', ''image/x-wmf'')]"

text \<open>
  One call of the function that \<^verbatim>\<open>makeContentTypesEnsurer(ctXml)\<close> returns.
  \<^verbatim>\<open>createElement\<close> on an XML document makes an element in no namespace. (The
  extensions that name a property every JavaScript object inherits are not modelled.)
\<close>

definition makeContentTypesEnsurer :: "xnode \<Rightarrow> string \<Rightarrow> xnode" where
  "makeContentTypesEnsurer ctXml ext =
     (if list_ex (\<lambda>d. toLowerCase (orEmpty (getAttribute d ''Extension'')) = toLowerCase ext)
           (docElementsByTagName ctXml ''Default'')
      then ctXml
      else appendChild ctXml
             (setAttribute (setAttribute (Elem [] [] ''Default'' [] []) ''Extension'' ext)
                ''ContentType''
                (case map_of contentTypeMap ext of None \<Rightarrow> ''application/octet-stream'' | Some t \<Rightarrow> t)))"

section \<open>The state of a merge\<close>

text \<open>
  What a merge call mutates besides the base document body: the base package, the
  relationship set and the content types of the base document (both held in memory
  until the end), and the note maps stashed on the package object (\<^verbatim>\<open>__noteMap\<close>).
\<close>

record base_state =
  baseZip :: zip
  baseRels :: xnode
  baseCT :: xnode
  noteMapFootnotes :: "idmap option"
  noteMapEndnotes :: "idmap option"

section \<open>The relationship resolver\<close>

definition remapRelationship ::
    "string \<Rightarrow> xnode \<Rightarrow> zip \<Rightarrow> base_state \<Rightarrow> error + (string option \<times> base_state)" where
  "remapRelationship oldRid srcRelXml srcZip st =
     (if oldRid = [] then Inr (None, st)
      else case findRelationshipById srcRelXml oldRid of
        None \<Rightarrow> Inr (None, st)
      | Some srcRel \<Rightarrow>
          let type = getAttribute srcRel ''Type'';
              target = getAttribute srcRel ''Target'';
              mode = (if truthy (getAttribute srcRel ''TargetMode'')
                      then getAttribute srcRel ''TargetMode'' else None)
          in case findRelationshipByTypeAndTarget (baseRels st) type target mode of
            Some existing \<Rightarrow> Inr (getAttribute existing ''Id'', st)
          | None \<Rightarrow>
              let newId = makeRidAllocator (baseRels st) in
              (case type of
                 None \<Rightarrow> Inl TypeError
               | Some ty \<Rightarrow>
                   if endsWith ty ''/hyperlink'' then
                     Inr (Some newId,
                          st\<lparr>baseRels := addRelationship (baseRels st) newId type target
                                (if truthy mode then mode else Some ''External'')\<rparr>)
                   else if endsWith ty ''/image'' then
                     (let srcPath = normalizePath P_document (jsStr target);
                          srcMediaPath = canonicalizeMediaPath srcPath
                      in case map_of srcZip srcMediaPath of
                           Some data \<Rightarrow>
                             let name = fst (splitNameExt srcMediaPath);
                                 ext = snd (splitNameExt srcMediaPath);
                                 dest = uniqueMediaName (baseZip st) name ext;
                                 relTarget = relativeTo P_document dest
                             in Inr (Some newId,
                                  st\<lparr>baseCT := makeContentTypesEnsurer (baseCT st) ext,
                                     baseZip := AList.update dest data (baseZip st),
                                     baseRels := addRelationship (baseRels st) newId type (Some relTarget) mode\<rparr>)
                         | None \<Rightarrow>
                             Inr (Some newId,
                                  st\<lparr>baseRels := addRelationship (baseRels st) newId type target mode\<rparr>))
                   else
                     (let srcFull = normalizePath P_document (jsStr target)
                      in case map_of srcZip srcFull of
                           Some data \<Rightarrow>
                             let unique = uniquePartPath (baseZip st) srcFull;
                                 relTarget = relativeTo P_document unique
                             in Inr (Some newId,
                                  st\<lparr>baseZip := AList.update unique data (baseZip st),
                                     baseRels := addRelationship (baseRels st) newId type (Some relTarget) mode\<rparr>)
                         | None \<Rightarrow>
                             Inr (Some newId,
                                  st\<lparr>baseRels := addRelationship (baseRels st) newId type target mode\<rparr>))))"

section \<open>Reading identifiers\<close>

text \<open>
  The chain \<^verbatim>\<open>n.getAttributeNS(NS.w, l) || n.getAttribute(q1) || n.getAttribute(q2) || d\<close>:
  an empty value falls through like a missing one.
\<close>

definition attrChain :: "xnode \<Rightarrow> string \<Rightarrow> string \<Rightarrow> string \<Rightarrow> string \<Rightarrow> string" where
  "attrChain n l q1 q2 d =
     orEmpty (jsOr (jsOr (jsOr (getAttributeNS n NS_w l) (getAttribute n q1)) (getAttribute n q2)) (Some d))"

text \<open>The same chain without a default, \<^verbatim>\<open>string | null\<close>.\<close>

definition attrChain0 :: "xnode \<Rightarrow> string \<Rightarrow> string \<Rightarrow> string \<Rightarrow> string option" where
  "attrChain0 n l q1 q2 =
     jsOr (jsOr (getAttributeNS n NS_w l) (getAttribute n q1)) (getAttribute n q2)"

section \<open>Numbering\<close>

text \<open>
  The loops of \<^verbatim>\<open>mergeNumberingParts\<close> run over the positions of the source elements
  (the array taken before the loop) and thread the source tree, which they mutate, the
  base root, to which they append a copy of the mutated element, the counter and the
  map. A position of the array is always in the tree; the \<open>None\<close> branches only make the
  functions total.
\<close>

fun numberingAbsLoop ::
    "path list \<Rightarrow> xnode \<Rightarrow> xnode \<Rightarrow> jsnum \<Rightarrow> idmap \<Rightarrow> xnode \<times> xnode \<times> jsnum \<times> idmap" where
  "numberingAbsLoop [] srcRoot baseRoot absMax absIdMap = (srcRoot, baseRoot, absMax, absIdMap)"
| "numberingAbsLoop (p # ps) srcRoot baseRoot absMax absIdMap =
     (case nodeAt srcRoot p of
        None \<Rightarrow> numberingAbsLoop ps srcRoot baseRoot absMax absIdMap
      | Some absEl \<Rightarrow>
          let oldId = toNumber (attrChain absEl ''abstractNumId'' ''w:abstractNumId'' ''abstractNumId'' ''0'');
              newId = jsInc absMax;
              abs' = setAttributeNS absEl NS_w ''w'' ''abstractNumId'' (jsString newId)
          in numberingAbsLoop ps
               (updAt p (\<lambda>n. setAttributeNS n NS_w ''w'' ''abstractNumId'' (jsString newId)) srcRoot)
               (appendChild baseRoot abs')
               newId (AList.update oldId newId absIdMap))"

text \<open>The rewrite of the \<^verbatim>\<open>w:abstractNumId\<close> child of the instance at \<open>q\<close>, when there is one.\<close>

definition remapAbstractRef :: "path \<Rightarrow> idmap \<Rightarrow> xnode \<Rightarrow> xnode" where
  "remapAbstractRef q absIdMap srcRoot =
     (case nodeAt srcRoot q of
        None \<Rightarrow> srcRoot
      | Some num \<Rightarrow>
          (case tagPaths NS_w ''abstractNumId'' num of
             [] \<Rightarrow> srcRoot
           | r # rs \<Rightarrow>
               (case nodeAt num r of
                  None \<Rightarrow> srcRoot
                | Some a \<Rightarrow>
                    let oldAbs = toNumber (attrChain a ''val'' ''w:val'' ''val'' ''0'');
                        newAbs = (case map_of absIdMap oldAbs of None \<Rightarrow> oldAbs | Some v \<Rightarrow> v)
                    in updAt (q @ r) (\<lambda>n. setAttributeNS n NS_w ''w'' ''val'' (jsString newAbs)) srcRoot)))"

fun numberingNumLoop ::
    "path list \<Rightarrow> idmap \<Rightarrow> xnode \<Rightarrow> xnode \<Rightarrow> jsnum \<Rightarrow> idmap \<Rightarrow> xnode \<times> xnode \<times> jsnum \<times> idmap" where
  "numberingNumLoop [] absIdMap srcRoot baseRoot numMax numIdMap = (srcRoot, baseRoot, numMax, numIdMap)"
| "numberingNumLoop (q # qs) absIdMap srcRoot baseRoot numMax numIdMap =
     (case nodeAt srcRoot q of
        None \<Rightarrow> numberingNumLoop qs absIdMap srcRoot baseRoot numMax numIdMap
      | Some num \<Rightarrow>
          let oldNumId = toNumber (attrChain num ''numId'' ''w:numId'' ''numId'' ''0'');
              newNumId = jsInc numMax;
              src1 = updAt q (\<lambda>n. setAttributeNS n NS_w ''w'' ''numId'' (jsString newNumId)) srcRoot;
              src2 = remapAbstractRef q absIdMap src1
          in (case nodeAt src2 q of
                None \<Rightarrow> numberingNumLoop qs absIdMap src2 baseRoot newNumId
                          (AList.update oldNumId newNumId numIdMap)
              | Some num' \<Rightarrow> numberingNumLoop qs absIdMap src2 (appendChild baseRoot num') newNumId
                          (AList.update oldNumId newNumId numIdMap)))"

text \<open>The merged numbering root and the two maps, before the root is written back.\<close>

definition mergeNumberingRoots :: "xnode \<Rightarrow> xnode \<Rightarrow> xnode \<times> idmap \<times> idmap" where
  "mergeNumberingRoots baseRoot srcRoot =
     (let baseAbsIds = map (\<lambda>x. toNumber (attrChain x ''abstractNumId'' ''w:abstractNumId'' ''w:abstractNumId'' ''0''))
                         (elementsByTagNameNS baseRoot NS_w ''abstractNum'');
          baseNumIds = map (\<lambda>x. toNumber (attrChain x ''numId'' ''w:numId'' ''w:numId'' ''0''))
                         (elementsByTagNameNS baseRoot NS_w ''num'');
          absMax = jsMax0 baseAbsIds;
          numMax = jsMax0 baseNumIds;
          r1 = numberingAbsLoop (tagPaths NS_w ''abstractNum'' srcRoot) srcRoot baseRoot absMax [];
          src1 = fst r1; base1 = fst (snd r1); absIdMap = snd (snd (snd r1));
          r2 = numberingNumLoop (tagPaths NS_w ''num'' src1) absIdMap src1 base1 numMax [];
          base2 = fst (snd r2); numIdMap = snd (snd (snd r2))
      in (base2, numIdMap, absIdMap))"

definition mergeNumberingParts :: "zip \<Rightarrow> zip \<Rightarrow> error + (zip \<times> idmap \<times> idmap)" where
  "mergeNumberingParts bZip srcZip =
     (case readXmlOrCreate bZip P_numbering numberingSkeleton of
        Inl e \<Rightarrow> Inl e
      | Inr baseNum \<Rightarrow>
          (case readXmlOrCreate srcZip P_numbering numberingSkeleton of
             Inl e \<Rightarrow> Inl e
           | Inr srcNum \<Rightarrow>
               let r = mergeNumberingRoots baseNum srcNum
               in Inr (writeXml bZip P_numbering (fst r), fst (snd r), snd (snd r))))"

text \<open>
  \<^verbatim>\<open>remapNumberingInBody\<close>: for every paragraph below the body, the first \<^verbatim>\<open>w:numId\<close>
  below its first \<^verbatim>\<open>w:numPr\<close>.
\<close>

definition numIdTarget :: "xnode \<Rightarrow> path \<Rightarrow> path option" where
  "numIdTarget body p =
     (case nodeAt body p of
        None \<Rightarrow> None
      | Some pn \<Rightarrow>
          (case tagPaths NS_w ''numPr'' pn of
             [] \<Rightarrow> None
           | r # rs \<Rightarrow>
               (case nodeAt pn r of
                  None \<Rightarrow> None
                | Some numPr \<Rightarrow>
                    (case tagPaths NS_w ''numId'' numPr of
                       [] \<Rightarrow> None
                     | s # ss \<Rightarrow> Some (p @ r @ s)))))"

definition remapNumId :: "idmap \<Rightarrow> xnode \<Rightarrow> xnode" where
  "remapNumId numIdMap numId =
     (let v = toNumber (attrChain numId ''val'' ''w:val'' ''val'' ''NaN'')
      in if v \<noteq> None \<and> map_of numIdMap v \<noteq> None
         then setAttributeNS numId NS_w ''w'' ''val'' (jsString (the (map_of numIdMap v)))
         else numId)"

fun remapNumberingLoop :: "path list \<Rightarrow> idmap \<Rightarrow> xnode \<Rightarrow> xnode" where
  "remapNumberingLoop [] numIdMap body = body"
| "remapNumberingLoop (p # ps) numIdMap body =
     (case numIdTarget body p of
        None \<Rightarrow> remapNumberingLoop ps numIdMap body
      | Some t \<Rightarrow> remapNumberingLoop ps numIdMap (updAt t (remapNumId numIdMap) body))"

definition remapNumberingInBody :: "xnode \<Rightarrow> idmap \<Rightarrow> xnode" where
  "remapNumberingInBody body numIdMap = remapNumberingLoop (tagPaths NS_w ''p'' body) numIdMap body"

section \<open>Styles\<close>

text \<open>The loop of \<^verbatim>\<open>mergeStylesPart\<close> over the source styles, with the set \<^verbatim>\<open>existing\<close>.\<close>

fun stylesLoop :: "xnode list \<Rightarrow> string option list \<Rightarrow> xnode \<Rightarrow> xnode" where
  "stylesLoop [] existing baseStyles = baseStyles"
| "stylesLoop (s # ss) existing baseStyles =
     (let sid = attrChain0 s ''styleId'' ''w:styleId'' ''styleId''
      in if truthy sid \<and> sid \<notin> set existing
         then stylesLoop ss (sid # existing) (appendChild baseStyles s)
         else stylesLoop ss existing baseStyles)"

definition mergeStylesRoots :: "xnode \<Rightarrow> xnode \<Rightarrow> xnode" where
  "mergeStylesRoots baseStyles srcStyles =
     stylesLoop (docElementsByTagNameNS srcStyles NS_w ''style'')
       (map (\<lambda>s. attrChain0 s ''styleId'' ''w:styleId'' ''styleId'') (docElementsByTagNameNS baseStyles NS_w ''style''))
       baseStyles"

fun optionalPartLoop :: "xnode list \<Rightarrow> string list \<Rightarrow> xnode \<Rightarrow> xnode" where
  "optionalPartLoop [] existing basePart = basePart"
| "optionalPartLoop (el # els) existing basePart =
     (let name = attrChain0 el ''name'' ''w:name'' ''name''
      in if truthy name \<and> orEmpty name \<notin> set existing
         then optionalPartLoop els (orEmpty name # existing) (appendChild basePart el)
         else optionalPartLoop els existing basePart)"

definition mergeOptionalStylePart :: "zip \<Rightarrow> zip \<Rightarrow> string \<Rightarrow> xnode \<Rightarrow> string option \<Rightarrow> error + zip" where
  "mergeOptionalStylePart bZip srcZip partPath skeleton mergeElementName =
     (case map_of srcZip partPath of
        None \<Rightarrow> Inr bZip
      | Some content \<Rightarrow>
          (case mergeElementName of
             Some elName \<Rightarrow>
               (case readXmlOrCreate bZip partPath skeleton of
                  Inl e \<Rightarrow> Inl e
                | Inr basePart \<Rightarrow>
                    (case readXml srcZip partPath of
                       Inl e \<Rightarrow> Inl e
                     | Inr srcPart \<Rightarrow>
                         Inr (writeXml bZip partPath
                                (optionalPartLoop (docElementsByTagNameNS srcPart NS_w elName)
                                   (map (\<lambda>el. attrChain el ''name'' ''w:name'' ''name'' [])
                                      (docElementsByTagNameNS basePart NS_w elName))
                                   basePart))))
           | None \<Rightarrow>
               (if map_of bZip partPath = None then Inr (AList.update partPath content bZip)
                else Inr bZip)))"

definition styleElements :: "string list" where
  "styleElements = [''defaultTabStop'', ''characterSpacingControl'', ''printTwoOnOne'',
                    ''printColorBlackWhite'', ''doNotPromptForConvert'', ''mwSmallCaps'']"

fun settingsLoop :: "string list \<Rightarrow> xnode \<Rightarrow> xnode \<Rightarrow> xnode" where
  "settingsLoop [] srcSettingsDoc baseSettings = baseSettings"
| "settingsLoop (elementName # names) srcSettingsDoc baseSettings =
     (case docElementsByTagNameNS srcSettingsDoc NS_w elementName of
        [] \<Rightarrow> settingsLoop names srcSettingsDoc baseSettings
      | srcElement # rest \<Rightarrow>
          if docElementsByTagNameNS baseSettings NS_w elementName = []
          then settingsLoop names srcSettingsDoc (appendChild baseSettings srcElement)
          else settingsLoop names srcSettingsDoc baseSettings)"

definition mergeSettingsPart :: "zip \<Rightarrow> zip \<Rightarrow> error + zip" where
  "mergeSettingsPart bZip srcZip =
     (case map_of srcZip P_settings of
        None \<Rightarrow> Inr bZip
      | Some srcSettings \<Rightarrow>
          (case readXmlOrCreate bZip P_settings settingsSkeleton of
             Inl e \<Rightarrow> Inl e
           | Inr baseSettings \<Rightarrow>
               (case readXml srcZip P_settings of
                  Inl e \<Rightarrow> Inl e
                | Inr srcSettingsDoc \<Rightarrow>
                    Inr (writeXml bZip P_settings (settingsLoop styleElements srcSettingsDoc baseSettings)))))"

text \<open>
  The skeleton of the theme part is passed to \<^verbatim>\<open>mergeOptionalStylePart\<close> with no element
  name, where it is never read; only its root is spelled out here.
\<close>

definition themeSkeleton :: xnode where
  "themeSkeleton =
     Elem ''http://schemas.openxmlformats.org/drawingml/2006/main'' ''a'' ''theme''
       [Attr NS_xmlns ''xmlns'' ''a'' ''http://schemas.openxmlformats.org/drawingml/2006/main'',
        Attr [] [] ''name'' ''Office Theme''] []"

definition mergeStylesPart :: "zip \<Rightarrow> zip \<Rightarrow> error + zip" where
  "mergeStylesPart bZip srcZip =
     (case readXmlOrCreate bZip P_styles stylesSkeleton of
        Inl e \<Rightarrow> Inl e
      | Inr baseStyles \<Rightarrow>
          (case readXmlOrCreate srcZip P_styles stylesSkeleton of
             Inl e \<Rightarrow> Inl e
           | Inr srcStyles \<Rightarrow>
               let z1 = writeXml bZip P_styles (mergeStylesRoots baseStyles srcStyles)
               in (case mergeOptionalStylePart z1 srcZip P_fontTable fontTableSkeleton (Some ''font'') of
                     Inl e \<Rightarrow> Inl e
                   | Inr z2 \<Rightarrow>
                       (case mergeOptionalStylePart z2 srcZip P_theme themeSkeleton None of
                          Inl e \<Rightarrow> Inl e
                        | Inr z3 \<Rightarrow>
                            (case mergeOptionalStylePart z3 srcZip P_webSettings webSettingsSkeleton None of
                               Inl e \<Rightarrow> Inl e
                             | Inr z4 \<Rightarrow> mergeSettingsPart z4 srcZip)))))"

definition styleParts :: "(string \<times> string) list" where
  "styleParts =
     [(P_styles, ''http://schemas.openxmlformats.org/officeDocument/2006/relationships/styles''),
      (P_fontTable, ''http://schemas.openxmlformats.org/officeDocument/2006/relationships/fontTable''),
      (P_theme, ''http://schemas.openxmlformats.org/officeDocument/2006/relationships/theme''),
      (P_webSettings, ''http://schemas.openxmlformats.org/officeDocument/2006/relationships/webSettings''),
      (P_settings, ''http://schemas.openxmlformats.org/officeDocument/2006/relationships/settings'')]"

fun ensureStyleRelationshipsLoop :: "(string \<times> string) list \<Rightarrow> xnode \<Rightarrow> xnode" where
  "ensureStyleRelationshipsLoop [] bRels = bRels"
| "ensureStyleRelationshipsLoop ((ppath, ptype) # parts) bRels =
     (let target = relativeTo P_document ppath
      in if findRelationshipByTypeAndTarget bRels (Some ptype) (Some target) None = None
         then ensureStyleRelationshipsLoop parts
                (addRelationship bRels (makeRidAllocator bRels) (Some ptype) (Some target) None)
         else ensureStyleRelationshipsLoop parts bRels)"

definition ensureStyleRelationships :: "xnode \<Rightarrow> xnode" where
  "ensureStyleRelationships bRels = ensureStyleRelationshipsLoop styleParts bRels"

section \<open>Footnotes and endnotes\<close>

datatype noteKind = Footnotes | Endnotes

fun notesLoop :: "path list \<Rightarrow> xnode \<Rightarrow> xnode \<Rightarrow> jsnum \<Rightarrow> idmap \<Rightarrow> xnode \<times> xnode \<times> jsnum \<times> idmap" where
  "notesLoop [] srcNotes baseNotes maxId idMap = (srcNotes, baseNotes, maxId, idMap)"
| "notesLoop (p # ps) srcNotes baseNotes maxId idMap =
     (case nodeAt srcNotes p of
        None \<Rightarrow> notesLoop ps srcNotes baseNotes maxId idMap
      | Some n \<Rightarrow>
          let oldId = toNumber (attrChain n ''id'' ''w:id'' ''id'' ''0'')
          in if jsNeg oldId then notesLoop ps srcNotes baseNotes maxId (AList.update oldId oldId idMap)
             else
               let newId = jsInc maxId;
                   n' = setAttributeNS n NS_w ''w'' ''id'' (jsString newId)
               in notesLoop ps
                    (updAt p (\<lambda>n. setAttributeNS n NS_w ''w'' ''id'' (jsString newId)) srcNotes)
                    (appendChild baseNotes n') newId (AList.update oldId newId idMap))"

text \<open>The merged notes root and the map of \<^verbatim>\<open>mergeNotes\<close>, for the tag of the note kind.\<close>

definition mergeNotesRoots :: "string \<Rightarrow> xnode \<Rightarrow> xnode \<Rightarrow> xnode \<times> idmap" where
  "mergeNotesRoots tag baseNotes srcNotes =
     (let baseIds = map (\<lambda>n. toNumber (attrChain n ''id'' ''w:id'' ''id'' ''0''))
                      (docElementsByTagNameNS baseNotes NS_w tag);
          maxId = jsMax0 (filter jsNonNeg baseIds);
          r = notesLoop (docTagPaths NS_w tag srcNotes) srcNotes baseNotes maxId []
      in (fst (snd r), snd (snd (snd r))))"

fun notesRelLoop :: "xnode list \<Rightarrow> string \<Rightarrow> zip \<Rightarrow> xnode \<Rightarrow> zip \<Rightarrow> xnode \<times> zip" where
  "notesRelLoop [] part srcZip baseRel bZip = (baseRel, bZip)"
| "notesRelLoop (el # els) part srcZip baseRel bZip =
     (let type = getAttribute el ''Type'';
          target = getAttribute el ''Target'';
          mode = orEmpty (getAttribute el ''TargetMode'');
          modeArg = (if mode = [] then None else Some mode)
      in if findRelationshipByTypeAndTarget baseRel type target modeArg \<noteq> None
         then notesRelLoop els part srcZip baseRel bZip
         else
           let newId = makeRidAllocator baseRel;
               baseRel' = addRelationship baseRel newId type target modeArg;
               bZip' = (if mode = [] then
                          (let srcFull = normalizePath part (jsStr target)
                           in case map_of srcZip srcFull of
                                None \<Rightarrow> bZip
                              | Some data \<Rightarrow> AList.update (uniquePartPath bZip srcFull) data bZip)
                        else bZip)
           in notesRelLoop els part srcZip baseRel' bZip')"

definition mergeNotes :: "base_state \<Rightarrow> zip \<Rightarrow> noteKind \<Rightarrow> error + base_state" where
  "mergeNotes st srcZip kind =
     (let part = (case kind of Footnotes \<Rightarrow> P_footnotes | Endnotes \<Rightarrow> P_endnotes);
          relPath = ''word/_rels/'' @ (case kind of Footnotes \<Rightarrow> ''footnotes.xml.rels'' | Endnotes \<Rightarrow> ''endnotes.xml.rels'');
          skel = (case kind of Footnotes \<Rightarrow> footnotesSkeleton | Endnotes \<Rightarrow> endnotesSkeleton);
          tag = (case kind of Footnotes \<Rightarrow> ''footnote'' | Endnotes \<Rightarrow> ''endnote'')
      in case readXmlOrCreate (baseZip st) part skel of
           Inl e \<Rightarrow> Inl e
         | Inr baseNotes \<Rightarrow>
             (case readXmlOrCreate srcZip part skel of
                Inl e \<Rightarrow> Inl e
              | Inr srcNotes \<Rightarrow>
                  let merged = mergeNotesRoots tag baseNotes srcNotes;
                      st1 = (case kind of
                               Footnotes \<Rightarrow> st\<lparr>noteMapFootnotes := Some (snd merged)\<rparr>
                             | Endnotes \<Rightarrow> st\<lparr>noteMapEndnotes := Some (snd merged)\<rparr>)
                  in (case readXmlOrCreate (baseZip st1) relPath relsSkeleton of
                        Inl e \<Rightarrow> Inl e
                      | Inr baseRel \<Rightarrow>
                          (case readXmlOrCreate srcZip relPath relsSkeleton of
                             Inl e \<Rightarrow> Inl e
                           | Inr srcRel \<Rightarrow>
                               let r = notesRelLoop (docElementsByTagNameNS srcRel NS_pr ''Relationship'')
                                         part srcZip baseRel (baseZip st1)
                               in Inr (st1\<lparr>baseZip := writeXml (writeXml (snd r) part (fst merged)) relPath (fst r)\<rparr>)))))"

definition getNoteIdRemap :: "base_state \<Rightarrow> noteKind \<Rightarrow> idmap" where
  "getNoteIdRemap st kind =
     (case (case kind of Footnotes \<Rightarrow> noteMapFootnotes st | Endnotes \<Rightarrow> noteMapEndnotes st) of
        None \<Rightarrow> [] | Some m \<Rightarrow> m)"

definition remapNoteRef :: "idmap \<Rightarrow> xnode \<Rightarrow> xnode" where
  "remapNoteRef idMap r =
     (let v = toNumber (attrChain r ''id'' ''w:id'' ''id'' ''NaN'')
      in if map_of idMap v \<noteq> None
         then setAttributeNS r NS_w ''w'' ''id'' (jsString (the (map_of idMap v)))
         else r)"

fun remapNoteRefsLoop :: "path list \<Rightarrow> idmap \<Rightarrow> xnode \<Rightarrow> xnode" where
  "remapNoteRefsLoop [] idMap body = body"
| "remapNoteRefsLoop (p # ps) idMap body = remapNoteRefsLoop ps idMap (updAt p (remapNoteRef idMap) body)"

definition remapNoteRefsInBody :: "xnode \<Rightarrow> idmap \<Rightarrow> xnode" where
  "remapNoteRefsInBody body idMap =
     (if idMap = [] then body
      else
        let body1 = remapNoteRefsLoop (tagPaths NS_w ''footnoteReference'' body) idMap body
        in remapNoteRefsLoop (tagPaths NS_w ''endnoteReference'' body1) idMap body1)"

section \<open>The body splicer\<close>

datatype level = Info | Ok | Warn | Err

record MergeOptions =
  o_pattern :: "string option"
  o_insertStart :: "bool option"
  o_insertEnd :: "bool option"
  o_pageBreaks :: "bool option"
  o_mergeNumbering :: "bool option"
  o_mergeStyles :: "bool option"
  o_mergeFootnotes :: "bool option"

record RequiredMergeOptions =
  pattern :: "string option"
  insertStart :: bool
  insertEnd :: bool
  pageBreaks :: bool
  mergeNumbering :: bool
  mergeStyles :: bool
  mergeFootnotes :: bool

definition withDefaults :: "MergeOptions \<Rightarrow> RequiredMergeOptions" where
  "withDefaults o' =
     \<lparr> pattern = o_pattern o',
       insertStart = (o_insertStart o' = Some True),
       insertEnd = (o_insertEnd o' = Some True),
       pageBreaks = (o_pageBreaks o' \<noteq> Some False),
       mergeNumbering = (o_mergeNumbering o' \<noteq> Some False),
       mergeStyles = (o_mergeStyles o' \<noteq> Some False),
       mergeFootnotes = (o_mergeFootnotes o' \<noteq> Some False) \<rparr>"

text \<open>\<^verbatim>\<open>bodyEl(doc)\<close>: the position of the first \<^verbatim>\<open>w:body\<close> of the document, if any.\<close>

definition bodyEl :: "xnode \<Rightarrow> path option" where
  "bodyEl doc = (case docTagPaths NS_w ''body'' doc of [] \<Rightarrow> None | p # ps \<Rightarrow> Some p)"

text \<open>\<^verbatim>\<open>lastSectPr(body)\<close>: the position, below the body, of the last \<^verbatim>\<open>w:sectPr\<close> in document order.\<close>

definition lastSectPr :: "xnode \<Rightarrow> path option" where
  "lastSectPr body = (case tagPaths NS_w ''sectPr'' body of [] \<Rightarrow> None | p # ps \<Rightarrow> Some (last (p # ps)))"

text \<open>\<^verbatim>\<open>parent.removeChild(n)\<close> for the node at \<open>p\<close> below \<open>parent\<close>: the DOM raises when \<open>n\<close> is not a child.\<close>

definition removeChild :: "xnode \<Rightarrow> path \<Rightarrow> error + xnode" where
  "removeChild parent p =
     (case p of
        [i] \<Rightarrow> if i < length (kidsOf parent)
               then Inr (mapKids (\<lambda>ks. take i ks @ drop (Suc i) ks) parent)
               else Inl NotFoundError
      | _ \<Rightarrow> Inl NotFoundError)"

text \<open>
  \<^verbatim>\<open>const s = lastSectPr(body); if (s) body.removeChild(s)\<close> on a body that may be
  undefined: the body afterwards and the detached element.
\<close>

definition detachSectPr :: "xnode option \<Rightarrow> error + (xnode option \<times> xnode option)" where
  "detachSectPr body =
     (case body of
        None \<Rightarrow> Inr (None, None)
      | Some b \<Rightarrow>
          (case lastSectPr b of
             None \<Rightarrow> Inr (Some b, None)
           | Some sp \<Rightarrow>
               (case removeChild b sp of
                  Inl e \<Rightarrow> Inl e
                | Inr b' \<Rightarrow> Inr (Some b', nodeAt b sp))))"

definition makePageBreak :: xnode where
  "makePageBreak =
     Elem NS_w ''w'' ''p'' []
       [Elem NS_w ''w'' ''r'' [] [Elem NS_w ''w'' ''br'' [Attr NS_w ''w'' ''type'' ''page''] []]]"

text \<open>\<^verbatim>\<open>findParagraphsContainingText\<close>, on the body of the document: the positions of the matches.\<close>

definition paragraphText :: "xnode \<Rightarrow> string" where
  "paragraphText p = concat (map textContent (elementsByTagNameNS p NS_w ''t''))"

definition findParagraphsContainingText :: "xnode \<Rightarrow> string \<Rightarrow> path list" where
  "findParagraphsContainingText body text =
     filter (\<lambda>p. case nodeAt body p of None \<Rightarrow> False | Some pn \<Rightarrow> includes_str (paragraphText pn) text)
       (tagPaths NS_w ''p'' body)"

subsection \<open>Rewriting the relationship references of an imported subtree\<close>

definition needsRemap :: "xattr \<Rightarrow> bool" where
  "needsRemap a = ((alocal a = ''id'' \<and> ans a = NS_r) \<or> aname a = ''r:id'')"

text \<open>
  The loop runs over the attributes the element had when the loop started and reads the
  value of each from the attribute object. Within an element an attribute object is
  identified by its namespace and local name; a detached one keeps its value.
\<close>

definition liveValue :: "xattr list \<Rightarrow> xattr \<Rightarrow> string" where
  "liveValue cur a =
     (case find (\<lambda>c. ans c = ans a \<and> alocal c = alocal a) cur of None \<Rightarrow> aval a | Some c \<Rightarrow> aval c)"

fun remapAttrs ::
    "xattr list \<Rightarrow> xattr list \<Rightarrow> xnode \<Rightarrow> zip \<Rightarrow> base_state \<Rightarrow> error + (xattr list \<times> base_state)" where
  "remapAttrs [] cur srcRels srcZip st = Inr (cur, st)"
| "remapAttrs (a # as) cur srcRels srcZip st =
     (if needsRemap a then
        (case remapRelationship (liveValue cur a) srcRels srcZip st of
           Inl e \<Rightarrow> Inl e
         | Inr (newRid, st') \<Rightarrow>
             remapAttrs as
               (if truthy newRid then setAttrNS NS_r ''r'' ''id'' (orEmpty newRid) cur
                else removeAttrNS NS_r ''id'' cur)
               srcRels srcZip st')
      else remapAttrs as cur srcRels srcZip st)"

text \<open>
  The walk over \<^verbatim>\<open>[imported, ...descendants(imported)]\<close>: every element in document order,
  its attributes first, then the elements below it.
\<close>

fun remapNode :: "xnode \<Rightarrow> xnode \<Rightarrow> zip \<Rightarrow> base_state \<Rightarrow> error + (xnode \<times> base_state)"
  and remapNodes :: "xnode list \<Rightarrow> xnode \<Rightarrow> zip \<Rightarrow> base_state \<Rightarrow> error + (xnode list \<times> base_state)" where
  "remapNode (Elem ns pre l as ks) srcRels srcZip st =
     (case remapAttrs as as srcRels srcZip st of
        Inl e \<Rightarrow> Inl e
      | Inr (as', st1) \<Rightarrow>
          (case remapNodes ks srcRels srcZip st1 of
             Inl e \<Rightarrow> Inl e
           | Inr (ks', st2) \<Rightarrow> Inr (Elem ns pre l as' ks', st2)))"
| "remapNode (Txt s) srcRels srcZip st = Inr (Txt s, st)"
| "remapNode (Misc s) srcRels srcZip st = Inr (Misc s, st)"
| "remapNodes [] srcRels srcZip st = Inr ([], st)"
| "remapNodes (k # ks) srcRels srcZip st =
     (case remapNode k srcRels srcZip st of
        Inl e \<Rightarrow> Inl e
      | Inr (k', st1) \<Rightarrow>
          (case remapNodes ks srcRels srcZip st1 of
             Inl e \<Rightarrow> Inl e
           | Inr (ks', st2) \<Rightarrow> Inr (k' # ks', st2)))"

text \<open>The loop over the children of the source body: the elements only.\<close>

fun importChildren :: "xnode list \<Rightarrow> xnode \<Rightarrow> zip \<Rightarrow> base_state \<Rightarrow> error + (xnode list \<times> base_state)" where
  "importChildren [] srcRels srcZip st = Inr ([], st)"
| "importChildren (node # nodes) srcRels srcZip st =
     (if \<not> isElem node then importChildren nodes srcRels srcZip st
      else
        (case remapNode node srcRels srcZip st of
           Inl e \<Rightarrow> Inl e
         | Inr (imported, st1) \<Rightarrow>
             (case importChildren nodes srcRels srcZip st1 of
                Inl e \<Rightarrow> Inl e
              | Inr (rest, st2) \<Rightarrow> Inr (imported # rest, st2))))"

subsection \<open>The steps of \<^verbatim>\<open>importBodyNodes\<close>\<close>

text \<open>Each step takes the state and the source body (which may be undefined).\<close>

definition numberingStep ::
    "RequiredMergeOptions \<Rightarrow> zip \<Rightarrow> base_state \<Rightarrow> xnode option \<Rightarrow> error + (base_state \<times> xnode option)" where
  "numberingStep opt srcZip st srcBody =
     (if mergeNumbering opt then
        (case mergeNumberingParts (baseZip st) srcZip of
           Inl e \<Rightarrow> Inl e
         | Inr (z, numIdMap, absIdMap) \<Rightarrow>
             (case srcBody of
                None \<Rightarrow> Inl TypeError
              | Some b \<Rightarrow> Inr (st\<lparr>baseZip := z\<rparr>, Some (remapNumberingInBody b numIdMap))))
      else Inr (st, srcBody))"

definition stylesStep :: "RequiredMergeOptions \<Rightarrow> zip \<Rightarrow> base_state \<Rightarrow> error + base_state" where
  "stylesStep opt srcZip st =
     (if mergeStyles opt then
        (case mergeStylesPart (baseZip st) srcZip of
           Inl e \<Rightarrow> Inl e
         | Inr z \<Rightarrow> Inr (st\<lparr>baseZip := z, baseRels := ensureStyleRelationships (baseRels st)\<rparr>))
      else Inr st)"

text \<open>\<^verbatim>\<open>remapNoteRefsInBody(srcBody, idMap)\<close> returns before it touches the body when the map is empty.\<close>

definition remapNoteRefsStep :: "xnode option \<Rightarrow> idmap \<Rightarrow> error + xnode option" where
  "remapNoteRefsStep srcBody idMap =
     (if idMap = [] then Inr srcBody
      else case srcBody of None \<Rightarrow> Inl TypeError | Some b \<Rightarrow> Inr (Some (remapNoteRefsInBody b idMap)))"

definition notesStep ::
    "RequiredMergeOptions \<Rightarrow> zip \<Rightarrow> base_state \<Rightarrow> xnode option \<Rightarrow> error + (base_state \<times> xnode option)" where
  "notesStep opt srcZip st srcBody =
     (if mergeFootnotes opt then
        (case mergeNotes st srcZip Footnotes of
           Inl e \<Rightarrow> Inl e
         | Inr st1 \<Rightarrow>
             (case mergeNotes st1 srcZip Endnotes of
                Inl e \<Rightarrow> Inl e
              | Inr st2 \<Rightarrow>
                  (case remapNoteRefsStep srcBody (getNoteIdRemap st2 Footnotes) of
                     Inl e \<Rightarrow> Inl e
                   | Inr b1 \<Rightarrow>
                       (case remapNoteRefsStep b1 (getNoteIdRemap st2 Endnotes) of
                          Inl e \<Rightarrow> Inl e
                        | Inr b2 \<Rightarrow> Inr (st2, b2)))))
      else Inr (st, srcBody))"

definition importBodyNodes ::
    "RequiredMergeOptions \<Rightarrow> zip \<Rightarrow> base_state \<Rightarrow> error + (xnode list \<times> base_state)" where
  "importBodyNodes opt srcZip st =
     (case readXml srcZip P_document of
        Inl e \<Rightarrow> Inl e
      | Inr srcDoc \<Rightarrow>
          (case detachSectPr (case bodyEl srcDoc of None \<Rightarrow> None | Some bp \<Rightarrow> nodeAt srcDoc bp) of
             Inl e \<Rightarrow> Inl e
           | Inr (srcBody0, srcSect) \<Rightarrow>
               (case readXmlOrCreate srcZip P_docRels relsSkeleton of
                  Inl e \<Rightarrow> Inl e
                | Inr srcRels \<Rightarrow>
                    (case numberingStep opt srcZip st srcBody0 of
                       Inl e \<Rightarrow> Inl e
                     | Inr (st1, srcBody1) \<Rightarrow>
                         (case stylesStep opt srcZip st1 of
                            Inl e \<Rightarrow> Inl e
                          | Inr st2 \<Rightarrow>
                              (case notesStep opt srcZip st2 srcBody1 of
                                 Inl e \<Rightarrow> Inl e
                               | Inr (st3, srcBody2) \<Rightarrow>
                                   (case srcBody2 of
                                      None \<Rightarrow> Inl TypeError
                                    | Some b \<Rightarrow> importChildren (kidsOf b) srcRels srcZip st3)))))))"

subsection \<open>Placing the imported nodes\<close>

text \<open>
  \<^verbatim>\<open>appendDocInto\<close>; its last parameter \<^verbatim>\<open>atEnd\<close> is never read. The base body may be
  undefined (a document without \<^verbatim>\<open>w:body\<close>); then the first access to it raises.
\<close>

definition appendDocInto ::
    "RequiredMergeOptions \<Rightarrow> zip \<Rightarrow> bool \<Rightarrow> base_state \<Rightarrow> xnode option \<Rightarrow> error + (base_state \<times> xnode option)" where
  "appendDocInto opt srcZip atEnd st baseBody =
     (case importBodyNodes opt srcZip st of
        Inl e \<Rightarrow> Inl e
      | Inr (importedNodes, st') \<Rightarrow>
          (case baseBody of
             None \<Rightarrow> if pageBreaks opt \<or> importedNodes \<noteq> [] then Inl TypeError else Inr (st', None)
           | Some b \<Rightarrow>
               let b1 = (if pageBreaks opt \<and> kidsOf b \<noteq> [] then appendChild b makePageBreak else b)
               in Inr (st', Some (mapKids (\<lambda>ks. ks @ importedNodes) b1))))"

fun appendAll ::
    "RequiredMergeOptions \<Rightarrow> zip list \<Rightarrow> bool \<Rightarrow> base_state \<Rightarrow> xnode option \<Rightarrow> error + (base_state \<times> xnode option)" where
  "appendAll opt [] atEnd st baseBody = Inr (st, baseBody)"
| "appendAll opt (z # zs) atEnd st baseBody =
     (case appendDocInto opt z atEnd st baseBody of
        Inl e \<Rightarrow> Inl e
      | Inr (st', b') \<Rightarrow> appendAll opt zs atEnd st' b')"

text \<open>
  \<^verbatim>\<open>insertDocBefore\<close>: the anchor is a position below the body; the nodes go before it
  under its parent, and the anchor moves right by their number.
\<close>

definition insertDocBefore ::
    "RequiredMergeOptions \<Rightarrow> zip \<Rightarrow> base_state \<Rightarrow> xnode \<Rightarrow> path \<Rightarrow> error + (base_state \<times> xnode \<times> path)" where
  "insertDocBefore opt srcZip st baseBody anchorP =
     (case importBodyNodes opt srcZip st of
        Inl e \<Rightarrow> Inl e
      | Inr (importedNodes, st') \<Rightarrow>
          Inr (st',
               updAt (butlast anchorP)
                 (mapKids (\<lambda>ks. take (last anchorP) ks @ importedNodes @ drop (last anchorP) ks)) baseBody,
               butlast anchorP @ [last anchorP + length importedNodes]))"

fun insertAll ::
    "RequiredMergeOptions \<Rightarrow> zip list \<Rightarrow> base_state \<Rightarrow> xnode \<Rightarrow> path \<Rightarrow> error + (base_state \<times> xnode \<times> path)" where
  "insertAll opt [] st baseBody anchorP = Inr (st, baseBody, anchorP)"
| "insertAll opt (z # zs) st baseBody anchorP =
     (case insertDocBefore opt z st baseBody anchorP of
        Inl e \<Rightarrow> Inl e
      | Inr (st', b', a') \<Rightarrow> insertAll opt zs st' b' a')"

section \<open>The merge orchestrator\<close>

text \<open>
  The inputs are the opened packages (turning the caller's bytes into a package is outside
  the model). The result is the list of the messages passed to \<^verbatim>\<open>onLog\<close> and either the
  error raised or the merged package.
\<close>

record loaded =
  l_doc :: xnode
  l_state :: base_state
  l_bodyPath :: "path option"
  l_body :: "xnode option"
  l_sectPr :: "xnode option"

definition loadBase :: "zip \<Rightarrow> error + loaded" where
  "loadBase bZip =
     (case readXml bZip P_document of
        Inl e \<Rightarrow> Inl e
      | Inr baseDoc \<Rightarrow>
          (case readXmlOrCreate bZip P_docRels relsSkeleton of
             Inl e \<Rightarrow> Inl e
           | Inr bRels \<Rightarrow>
               (case readXml bZip P_ct of
                  Inl e \<Rightarrow> Inl e
                | Inr bCT \<Rightarrow>
                    (case detachSectPr (case bodyEl baseDoc of None \<Rightarrow> None | Some bp \<Rightarrow> nodeAt baseDoc bp) of
                       Inl e \<Rightarrow> Inl e
                     | Inr (body, sect) \<Rightarrow>
                         Inr \<lparr> l_doc = baseDoc,
                               l_state = \<lparr> baseZip = bZip, baseRels = bRels, baseCT = bCT,
                                           noteMapFootnotes = None, noteMapEndnotes = None \<rparr>,
                               l_bodyPath = bodyEl baseDoc,
                               l_body = body,
                               l_sectPr = sect \<rparr>))))"

definition startStage ::
    "RequiredMergeOptions \<Rightarrow> zip list \<Rightarrow> base_state \<Rightarrow> xnode option \<Rightarrow> error + (base_state \<times> xnode option)" where
  "startStage opt srcs st body =
     (if insertStart opt then appendAll opt srcs False st body else Inr (st, body))"

text \<open>The third component tells whether an anchor was found.\<close>

definition patternStage ::
    "RequiredMergeOptions \<Rightarrow> zip list \<Rightarrow> base_state \<Rightarrow> xnode option
       \<Rightarrow> error + (base_state \<times> xnode option \<times> bool)" where
  "patternStage opt srcs st body =
     (if truthy (pattern opt) then
        (case body of
           None \<Rightarrow> Inl TypeError
         | Some b \<Rightarrow>
             (case findParagraphsContainingText b (orEmpty (pattern opt)) of
                [] \<Rightarrow> Inr (st, Some b, False)
              | anchor # others \<Rightarrow>
                  (case insertAll opt srcs st b anchor of
                     Inl e \<Rightarrow> Inl e
                   | Inr (st', b', a') \<Rightarrow> Inr (st', Some b', True))))
      else Inr (st, body, False))"

definition endStage ::
    "RequiredMergeOptions \<Rightarrow> zip list \<Rightarrow> base_state \<Rightarrow> xnode option \<Rightarrow> error + (base_state \<times> xnode option)" where
  "endStage opt srcs st body =
     (if insertEnd opt then appendAll opt srcs True st body else Inr (st, body))"

text \<open>Restoring the section properties and writing the three parts back.\<close>

definition finalBody :: "xnode option \<Rightarrow> xnode option \<Rightarrow> xnode option" where
  "finalBody body sect =
     (case sect of
        None \<Rightarrow> body
      | Some s \<Rightarrow> (case body of None \<Rightarrow> None | Some b \<Rightarrow> Some (appendChild b s)))"

definition finalDoc :: "xnode \<Rightarrow> path option \<Rightarrow> xnode option \<Rightarrow> xnode" where
  "finalDoc baseDoc bp body =
     (case bp of
        None \<Rightarrow> baseDoc
      | Some p \<Rightarrow> (case body of None \<Rightarrow> baseDoc | Some b \<Rightarrow> updAt p (\<lambda>n. b) baseDoc))"

definition packageOf :: "xnode \<Rightarrow> base_state \<Rightarrow> zip" where
  "packageOf doc st =
     writeXml (writeXml (writeXml (baseZip st) P_document doc) P_docRels (baseRels st)) P_ct (baseCT st)"

definition totalReplacements :: "RequiredMergeOptions \<Rightarrow> bool \<Rightarrow> nat" where
  "totalReplacements opt found =
     0 + (if insertStart opt then 1 else 0) + (if insertEnd opt then 1 else 0) + (if found then 1 else 0)"

definition mergeDocx :: "zip list \<Rightarrow> MergeOptions \<Rightarrow> (string \<times> level) list \<times> (error + zip)" where
  "mergeDocx inputBuffers options =
     (let opt = withDefaults options in
      if length inputBuffers < 2 then ([], Inl InsufficientSources)
      else if \<not> truthy (pattern opt) \<and> \<not> insertStart opt \<and> \<not> insertEnd opt then ([], Inl NoInsertionMode)
      else
        let log0 = [(''Reading '' @ natToString (length inputBuffers) @ '' DOCX files ...'', Info)];
            srcs = tl inputBuffers
        in case loadBase (hd inputBuffers) of
             Inl e \<Rightarrow> (log0, Inl e)
           | Inr ld \<Rightarrow>
               (case startStage opt srcs (l_state ld) (l_body ld) of
                  Inl e \<Rightarrow> (log0, Inl e)
                | Inr (st1, body1) \<Rightarrow>
                    (case patternStage opt srcs st1 body1 of
                       Inl e \<Rightarrow> (log0, Inl e)
                     | Inr (st2, body2, found) \<Rightarrow>
                         let log1 = log0 @ (if truthy (pattern opt) \<and> \<not> found
                                            then [(''Pattern not found in base document'', Warn)] else [])
                         in (case endStage opt srcs st2 body2 of
                               Inl e \<Rightarrow> (log1, Inl e)
                             | Inr (st3, body3) \<Rightarrow>
                                 if totalReplacements opt found = 0
                                 then (log1, Inl NoInsertionPerformed)
                                 else (log1 @ [(''Packaging merged .docx ...'', Info), (''Done.'', Info)],
                                       Inr (packageOf (finalDoc (l_doc ld) (l_bodyPath ld)
                                                         (finalBody body3 (l_sectPr ld))) st3))))))"

section \<open>Sequences of allocations\<close>

text \<open>
  Every caller of the allocator (\<^verbatim>\<open>remapRelationship\<close>, \<^verbatim>\<open>ensureStyleRelationships\<close>,
  \<^verbatim>\<open>mergeNotes\<close>) adds a relationship with the new ID before it asks for the next one.
  \<open>allocateAll\<close> is a run of such steps for a list of (type, target, mode) requests; it
  returns the IDs in the order of allocation and the final relationship set.
\<close>

fun allocateAll :: "xnode \<Rightarrow> (string option \<times> string option \<times> string option) list \<Rightarrow> string list \<times> xnode" where
  "allocateAll relXml [] = ([], relXml)"
| "allocateAll relXml ((ty, tg, md) # reqs) =
     (let newId = makeRidAllocator relXml;
          rest = allocateAll (addRelationship relXml newId ty tg md) reqs
      in (newId # fst rest, snd rest))"

text \<open>The \<^verbatim>\<open>Id\<close> attributes of the entries of a relationship set, and the number the
  pattern of the allocator reads in one.\<close>

definition relIds :: "xnode \<Rightarrow> string option list" where
  "relIds relXml = map (\<lambda>el. getAttribute el ''Id'') (docElementsByTagNameNS relXml NS_pr ''Relationship'')"

definition ridNumber :: "string option \<Rightarrow> int option" where
  "ridNumber i = map_option (\<lambda>ds. int (parseNat ds)) (ridMatch (orEmpty i))"

section \<open>Facts about the DOM operations\<close>

subsection \<open>Descendants and \<open>appendChild\<close>\<close>

lemma descsKids_append: "descsKids (ks @ ms) = descsKids ks @ descsKids ms"
  by (induction ks) simp_all

lemma descs_appendChild:
  "isElem r \<Longrightarrow> descs (appendChild r x) = descs r @ (if isElem x then [x] else []) @ descs x"
  by (cases r) (simp_all add: appendChild_def descsKids_append)

lemma hasTag_appendChild [simp]: "hasTag ns l (appendChild r x) = hasTag ns l r"
  by (cases r) (simp_all add: appendChild_def)

lemma isElem_appendChild [simp]: "isElem (appendChild r x) = isElem r"
  by (cases r) (simp_all add: appendChild_def)

lemma hasTag_isElem: "hasTag ns l x \<Longrightarrow> isElem x"
  by (cases x) simp_all

lemma docElements_appendChild:
  assumes r: "isElem r"
  shows "docElementsByTagNameNS (appendChild r x) ns l =
     (if hasTag ns l r then [appendChild r x] else []) @ elementsByTagNameNS r ns l
       @ (if hasTag ns l x then [x] else []) @ elementsByTagNameNS x ns l"
proof (cases "isElem x")
  case True
  then show ?thesis
    by (simp add: docElementsByTagNameNS_def elementsByTagNameNS_def descs_appendChild [OF r])
next
  case False
  then have "\<not> hasTag ns l x" using hasTag_isElem by blast
  with False show ?thesis
    by (simp add: docElementsByTagNameNS_def elementsByTagNameNS_def descs_appendChild [OF r])
qed

lemma attrsOf_appendChild [simp]: "attrsOf (appendChild r x) = attrsOf r"
  by (cases r) (simp_all add: appendChild_def)

lemma getAttribute_appendChild [simp]: "getAttribute (appendChild r x) q = getAttribute r q"
  by (simp add: getAttribute_def)

section \<open>The relationship-ID allocator is collision-free\<close>

lemma ridMax_ge: "m \<le> ridMax m els"
proof (induction els arbitrary: m)
  case Nil
  show ?case by simp
next
  case (Cons el els)
  show ?case
  proof (cases "ridMatch (orEmpty (getAttribute el ''Id''))")
    case None
    then show ?thesis using Cons [of m] by simp
  next
    case (Some ds)
    then show ?thesis using Cons [of "max m (int (parseNat ds))"] by simp
  qed
qed

lemma ridMax_snoc:
  "ridMax m (els @ [x]) =
     (case ridNumber (getAttribute x ''Id'') of None \<Rightarrow> ridMax m els | Some n \<Rightarrow> max (ridMax m els) n)"
proof (induction els arbitrary: m)
  case Nil
  show ?case by (simp add: ridNumber_def split: option.splits)
next
  case (Cons e els)
  show ?case
    by (cases "ridMatch (orEmpty (getAttribute e ''Id''))") (simp_all add: Cons split: option.splits)
qed

lemma takeWhile_all: "list_all P xs \<Longrightarrow> takeWhile P xs = xs"
  by (induction xs) simp_all

lemma ridMatch_rId: "ridMatch (''rId'' @ natToString k) = Some (natToString k)"
  by (simp add: startsWith_def takeWhile_all natToString_digits natToString_nonempty)

lemma ridNumber_rId: "ridNumber (Some (''rId'' @ natToString k)) = Some (int k)"
  using ridMatch_rId [of k] by (simp add: ridNumber_def orEmpty_def parseNat_natToString)

lemma ridMax_Max:
  "ridMax m els =
     Max (insert m {n. \<exists>i \<in> set (map (\<lambda>el. getAttribute el ''Id'') els). ridNumber i = Some n})"
proof (induction els rule: rev_induct)
  case Nil
  show ?case by simp
next
  case (snoc x els)
  let ?ids = "\<lambda>els. set (map (\<lambda>el. getAttribute el ''Id'') els)"
  let ?S = "{n. \<exists>i \<in> ?ids els. ridNumber i = Some n}"
  have fin: "finite ?S"
  proof -
    have "?S \<subseteq> (\<lambda>i. the (ridNumber i)) ` ?ids els" by force
    then show ?thesis by (rule finite_subset) simp
  qed
  show ?case
  proof (cases "ridNumber (getAttribute x ''Id'')")
    case None
    then have "{n. \<exists>i \<in> ?ids (els @ [x]). ridNumber i = Some n} = ?S" by auto
    with None snoc show ?thesis by (simp only: ridMax_snoc option.case)
  next
    case (Some n)
    then have eq: "{n. \<exists>i \<in> ?ids (els @ [x]). ridNumber i = Some n} = insert n ?S" by auto
    have "Max (insert m (insert n ?S)) = Max (insert n (insert m ?S))"
      by (simp add: insert_commute)
    also have "\<dots> = max n (Max (insert m ?S))"
      using fin by (subst Max_insert) simp_all
    finally have "Max (insert m (insert n ?S)) = max (ridMax m els) n"
      using snoc by (simp add: max.commute)
    then show ?thesis using Some by (simp only: eq ridMax_snoc option.case)
  qed
qed

lemma ridMax_cong:
  "map (\<lambda>el. getAttribute el ''Id'') els = map (\<lambda>el. getAttribute el ''Id'') els' \<Longrightarrow>
     ridMax m els = ridMax m els'"
  by (simp add: ridMax_Max)

lemma ridMax_member:
  assumes "i \<in> set (map (\<lambda>el. getAttribute el ''Id'') els)" and "ridNumber i = Some n"
  shows "n \<le> ridMax m els"
proof -
  let ?S = "{n. \<exists>i \<in> set (map (\<lambda>el. getAttribute el ''Id'') els). ridNumber i = Some n}"
  have "?S \<subseteq> (\<lambda>i. the (ridNumber i)) ` set (map (\<lambda>el. getAttribute el ''Id'') els)" by force
  then have fin: "finite ?S" by (rule finite_subset) simp
  have "n \<in> insert m ?S" using assms by auto
  then have "n \<le> Max (insert m ?S)" using fin by (intro Max_ge) simp_all
  then show ?thesis by (simp only: ridMax_Max)
qed


lemma ridMax0_nonneg: "0 \<le> ridMax 0 els"
  by (rule ridMax_ge)

lemma makeRidAllocator_eq:
  "makeRidAllocator relXml =
     ''rId'' @ natToString (nat (ridMax 0 (docElementsByTagNameNS relXml NS_pr ''Relationship'') + 1))"
  using ridMax0_nonneg [of "docElementsByTagNameNS relXml NS_pr ''Relationship''"]
  by (simp add: makeRidAllocator_def jsString_def)

lemma ridNumber_makeRidAllocator:
  "ridNumber (Some (makeRidAllocator relXml)) =
     Some (ridMax 0 (docElementsByTagNameNS relXml NS_pr ''Relationship'') + 1)"
  using ridMax0_nonneg [of "docElementsByTagNameNS relXml NS_pr ''Relationship''"]
  by (simp only: makeRidAllocator_eq ridNumber_rId) simp

lemma makeRidAllocator_fresh: "Some (makeRidAllocator relXml) \<notin> set (relIds relXml)"
proof
  assume "Some (makeRidAllocator relXml) \<in> set (relIds relXml)"
  then have "ridMax 0 (docElementsByTagNameNS relXml NS_pr ''Relationship'') + 1
      \<le> ridMax 0 (docElementsByTagNameNS relXml NS_pr ''Relationship'')"
    unfolding relIds_def by (rule ridMax_member) (rule ridNumber_makeRidAllocator)
  then show False by simp
qed

lemma newRel_tag:
  "hasTag NS_pr ''Relationship''
     (if truthy md then setAttribute (setAttribute (setAttribute (setAttribute
          (Elem NS_pr [] ''Relationship'' [] []) ''Id'' i) ''Type'' ty) ''Target'' tg) ''TargetMode'' m
      else setAttribute (setAttribute (setAttribute
          (Elem NS_pr [] ''Relationship'' [] []) ''Id'' i) ''Type'' ty) ''Target'' tg)"
  by (simp add: setAttribute_def)

lemma relIds_addRelationship:
  assumes "isElem relXml"
  shows "relIds (addRelationship relXml i ty tg md) = relIds relXml @ [Some i]"
proof -
  have "relIds (addRelationship relXml i ty tg md) =
      (if hasTag NS_pr ''Relationship'' relXml then [getAttribute relXml ''Id''] else [])
        @ map (\<lambda>el. getAttribute el ''Id'') (elementsByTagNameNS relXml NS_pr ''Relationship'') @ [Some i]"
    unfolding relIds_def addRelationship_def Let_def
    by (simp add: docElements_appendChild [OF assms] setAttribute_def elementsByTagNameNS_def
        getAttribute_def aname_def)
  also have "\<dots> = relIds relXml @ [Some i]"
    by (simp add: relIds_def docElementsByTagNameNS_def elementsByTagNameNS_def)
  finally show ?thesis .
qed

lemma isElem_addRelationship [simp]: "isElem (addRelationship relXml i ty tg md) = isElem relXml"
  by (simp add: addRelationship_def Let_def)

lemma ridMax_relIds:
  "ridMax m (docElementsByTagNameNS relXml NS_pr ''Relationship'') =
     Max (insert m {n. \<exists>i \<in> set (relIds relXml). ridNumber i = Some n})"
  by (simp only: ridMax_Max relIds_def)

lemma ridMax_addRelationship:
  assumes "isElem relXml"
  shows "ridMax 0 (docElementsByTagNameNS (addRelationship relXml (makeRidAllocator relXml) ty tg md) NS_pr ''Relationship'')
     = ridMax 0 (docElementsByTagNameNS relXml NS_pr ''Relationship'') + 1"
proof -
  let ?E = "docElementsByTagNameNS relXml NS_pr ''Relationship''"
  let ?x = "Elem NS_pr [] ''Relationship'' [Attr [] [] ''Id'' (makeRidAllocator relXml)] []"
  have ids: "map (\<lambda>el. getAttribute el ''Id'')
        (docElementsByTagNameNS (addRelationship relXml (makeRidAllocator relXml) ty tg md) NS_pr ''Relationship'')
      = map (\<lambda>el. getAttribute el ''Id'') (?E @ [?x])"
    using relIds_addRelationship [OF assms, of "makeRidAllocator relXml" ty tg md]
    by (simp add: relIds_def getAttribute_def aname_def)
  have "ridMax 0 (docElementsByTagNameNS (addRelationship relXml (makeRidAllocator relXml) ty tg md) NS_pr ''Relationship'')
      = ridMax 0 (?E @ [?x])"
    by (rule ridMax_cong [OF ids])
  also have "\<dots> = max (ridMax 0 ?E) (ridMax 0 ?E + 1)"
    using ridNumber_makeRidAllocator [of relXml]
    by (simp add: ridMax_snoc getAttribute_def aname_def)
  finally show ?thesis by simp
qed

lemma allocateAll_props:
  assumes "isElem relXml"
  shows "distinct (fst (allocateAll relXml reqs))
       \<and> (\<forall>i \<in> set (fst (allocateAll relXml reqs)). Some i \<notin> set (relIds relXml)
              \<and> (\<exists>n. ridNumber (Some i) = Some n
                   \<and> ridMax 0 (docElementsByTagNameNS relXml NS_pr ''Relationship'') < n))
       \<and> relIds (snd (allocateAll relXml reqs)) = relIds relXml @ map Some (fst (allocateAll relXml reqs))"
  using assms
proof (induction reqs arbitrary: relXml)
  case Nil
  show ?case by simp
next
  case (Cons req reqs)
  obtain ty tg md where req: "req = (ty, tg, md)" by (cases req) auto
  let ?i = "makeRidAllocator relXml"
  let ?R = "addRelationship relXml ?i ty tg md"
  have el: "isElem ?R" using Cons.prems by simp
  note IH = Cons.IH [OF el]
  have ids: "relIds ?R = relIds relXml @ [Some ?i]"
    by (rule relIds_addRelationship [OF Cons.prems])
  have mx: "ridMax 0 (docElementsByTagNameNS ?R NS_pr ''Relationship'')
      = ridMax 0 (docElementsByTagNameNS relXml NS_pr ''Relationship'') + 1"
    by (rule ridMax_addRelationship [OF Cons.prems])
  have fresh: "Some ?i \<notin> set (relIds relXml)" by (rule makeRidAllocator_fresh)
  have notin: "?i \<notin> set (fst (allocateAll ?R reqs))"
    using IH ids by auto
  have d: "distinct (fst (allocateAll relXml (req # reqs)))"
    using IH notin by (simp add: req Let_def)
  have a: "\<forall>i \<in> set (fst (allocateAll relXml (req # reqs))). Some i \<notin> set (relIds relXml)
              \<and> (\<exists>n. ridNumber (Some i) = Some n
                   \<and> ridMax 0 (docElementsByTagNameNS relXml NS_pr ''Relationship'') < n)"
  proof
    fix i assume "i \<in> set (fst (allocateAll relXml (req # reqs)))"
    then consider "i = ?i" | "i \<in> set (fst (allocateAll ?R reqs))"
      by (auto simp: req Let_def)
    then show "Some i \<notin> set (relIds relXml)
              \<and> (\<exists>n. ridNumber (Some i) = Some n
                   \<and> ridMax 0 (docElementsByTagNameNS relXml NS_pr ''Relationship'') < n)"
    proof cases
      case 1
      then show ?thesis using fresh ridNumber_makeRidAllocator [of relXml] by simp
    next
      case 2
      with IH have "Some i \<notin> set (relIds ?R)" and
        "\<exists>n. ridNumber (Some i) = Some n \<and> ridMax 0 (docElementsByTagNameNS ?R NS_pr ''Relationship'') < n"
        by blast+
      then show ?thesis using ids mx by auto
    qed
  qed
  have r: "relIds (snd (allocateAll relXml (req # reqs)))
      = relIds relXml @ map Some (fst (allocateAll relXml (req # reqs)))"
    using IH ids by (simp add: req Let_def)
  from d a r show ?case by blast
qed

lemma allocateAll_numbers:
  assumes "isElem relXml"
  shows "map (\<lambda>i. ridNumber (Some i)) (fst (allocateAll relXml reqs)) =
     map (\<lambda>k. Some (ridMax 0 (docElementsByTagNameNS relXml NS_pr ''Relationship'') + 1 + int k)) [0..<length reqs]"
  using assms
proof (induction reqs arbitrary: relXml)
  case Nil
  show ?case by simp
next
  case (Cons req reqs)
  obtain ty tg md where req: "req = (ty, tg, md)" by (cases req) auto
  let ?i = "makeRidAllocator relXml"
  let ?R = "addRelationship relXml ?i ty tg md"
  let ?M = "ridMax 0 (docElementsByTagNameNS relXml NS_pr ''Relationship'')"
  have el: "isElem ?R" using Cons.prems by simp
  have mx: "ridMax 0 (docElementsByTagNameNS ?R NS_pr ''Relationship'') = ?M + 1"
    by (rule ridMax_addRelationship [OF Cons.prems])
  have "map (\<lambda>i. ridNumber (Some i)) (fst (allocateAll relXml (req # reqs)))
      = Some (?M + 1) # map (\<lambda>k. Some (?M + 1 + 1 + int k)) [0..<length reqs]"
    using Cons.IH [OF el] by (simp add: req Let_def ridNumber_makeRidAllocator mx)
  also have "\<dots> = map (\<lambda>k. Some (?M + 1 + int k)) [0..<length (req # reqs)]"
    by (simp add: upt_rec [of 0 "Suc (length reqs)"] map_Suc_upt [symmetric] del: upt_Suc)
  finally show ?case .
qed

text \<open>
  An entry counts for the allocator as soon as its ID holds \<^verbatim>\<open>rId\<close> and a digit somewhere, not
  only when it is of the form \<^verbatim>\<open>rId<N>\<close>.
\<close>

definition unanchoredRels :: xnode where
  "unanchoredRels = Elem NS_pr [] ''Relationships'' []
     [Elem NS_pr [] ''Relationship'' [Attr [] [] ''Id'' ''myrId41x'', Attr [] [] ''Type'' ''t1'', Attr [] [] ''Target'' ''a.xml''] []]"

theorem C10_unanchored_pattern_example:
  "makeRidAllocator unanchoredRels = ''rId42'' \<and> relIds unanchoredRels = [Some ''myrId41x'']"
  by code_simp

text \<open>
  Claim C10. On each call the relationship-ID allocator scans the \<^verbatim>\<open>Relationship\<close> entries
  now in the relationship set. As amended: it takes the maximum \<open>N\<close> of the numbers read in
  the IDs that hold \<^verbatim>\<open>rId\<close> followed by digits, anywhere in the ID (\<open>ridNumber\<close> reads the digits
  after the leftmost such \<^verbatim>\<open>rId\<close>, which for an ID \<^verbatim>\<open>rId<N>\<close> is \<open>N\<close>, see \<open>ridNumber_rId\<close>; 0
  when there is none), and returns \<^verbatim>\<open>rId<N+1>\<close>. As long as the numbers stay below \<open>2^53\<close>,
  where the doubles of the code are the integers of the model: the ID is not the ID of any
  entry, and in a run of allocations, each followed by the addition of the relationship as
  every caller does, the numbers of the IDs increase by one at a time and stay below \<open>2^53\<close>,
  the IDs are pairwise different and none is the ID of an entry that was there before.
\<close>

theorem C10_rid_allocator_collision_free:
  assumes "isElem relXml"
    and bound: "ridMax 0 (docElementsByTagNameNS relXml NS_pr ''Relationship'') + int (length reqs) < 2 ^ 53"
  shows "makeRidAllocator relXml =
           ''rId'' @ natToString (nat (Max (insert 0 {n. \<exists>i \<in> set (relIds relXml). ridNumber i = Some n}) + 1))
       \<and> Some (makeRidAllocator relXml) \<notin> set (relIds relXml)
       \<and> map (\<lambda>i. ridNumber (Some i)) (fst (allocateAll relXml reqs)) =
           map (\<lambda>k. Some (Max (insert 0 {n. \<exists>i \<in> set (relIds relXml). ridNumber i = Some n}) + 1 + int k))
             [0..<length reqs]
       \<and> distinct (fst (allocateAll relXml reqs))
       \<and> (\<forall>i \<in> set (fst (allocateAll relXml reqs)). Some i \<notin> set (relIds relXml))
       \<and> relIds (snd (allocateAll relXml reqs)) = relIds relXml @ map Some (fst (allocateAll relXml reqs))
       \<and> (\<forall>v \<in> set (map (\<lambda>i. ridNumber (Some i)) (fst (allocateAll relXml reqs))).
             \<exists>n. v = Some n \<and> 0 < n \<and> n < 2 ^ 53)"
proof -
  have a: "makeRidAllocator relXml =
           ''rId'' @ natToString (nat (Max (insert 0 {n. \<exists>i \<in> set (relIds relXml). ridNumber i = Some n}) + 1))"
    by (simp only: makeRidAllocator_eq ridMax_relIds)
  have b: "Some (makeRidAllocator relXml) \<notin> set (relIds relXml)"
    by (rule makeRidAllocator_fresh)
  have c: "map (\<lambda>i. ridNumber (Some i)) (fst (allocateAll relXml reqs)) =
           map (\<lambda>k. Some (Max (insert 0 {n. \<exists>i \<in> set (relIds relXml). ridNumber i = Some n}) + 1 + int k))
             [0..<length reqs]"
    using allocateAll_numbers [OF assms(1), of reqs] by (simp only: ridMax_relIds)
  have d: "\<forall>v \<in> set (map (\<lambda>i. ridNumber (Some i)) (fst (allocateAll relXml reqs))).
             \<exists>n. v = Some n \<and> 0 < n \<and> n < 2 ^ 53"
  proof
    fix v assume "v \<in> set (map (\<lambda>i. ridNumber (Some i)) (fst (allocateAll relXml reqs)))"
    then obtain k where k: "k < length reqs"
      and v: "v = Some (ridMax 0 (docElementsByTagNameNS relXml NS_pr ''Relationship'') + 1 + int k)"
      unfolding allocateAll_numbers [OF assms(1), of reqs] by auto
    have "0 \<le> ridMax 0 (docElementsByTagNameNS relXml NS_pr ''Relationship'')" by (rule ridMax0_nonneg)
    then show "\<exists>n. v = Some n \<and> 0 < n \<and> n < 2 ^ 53" using k v bound by simp
  qed
  have p: "distinct (fst (allocateAll relXml reqs))
       \<and> (\<forall>i \<in> set (fst (allocateAll relXml reqs)). Some i \<notin> set (relIds relXml))
       \<and> relIds (snd (allocateAll relXml reqs)) = relIds relXml @ map Some (fst (allocateAll relXml reqs))"
    using allocateAll_props [OF assms(1), of reqs] by simp
  from a b c p d show ?thesis by (intro conjI) (elim conjE, assumption)+
qed

definition exampleRels :: xnode where
  "exampleRels = Elem NS_pr [] ''Relationships'' []
     [Elem NS_pr [] ''Relationship'' [Attr [] [] ''Id'' ''rId1'', Attr [] [] ''Type'' ''t1'', Attr [] [] ''Target'' ''a.xml''] [],
      Txt '' '',
      Elem NS_pr [] ''Relationship'' [Attr [] [] ''Id'' ''rId12'', Attr [] [] ''Type'' ''t2'', Attr [] [] ''Target'' ''b.xml''] [],
      Elem NS_pr [] ''Relationship'' [Attr [] [] ''Id'' ''R7f'', Attr [] [] ''Type'' ''t3'', Attr [] [] ''Target'' ''c.xml''] []]"

theorem C10_rid_allocator_witness:
  "isElem exampleRels
   \<and> makeRidAllocator exampleRels = ''rId13''
   \<and> fst (allocateAll exampleRels [(Some ''t4'', Some ''d.xml'', None), (Some ''t5'', Some ''http://e'', Some ''External'')])
       = [''rId13'', ''rId14'']
   \<and> relIds (snd (allocateAll exampleRels [(Some ''t4'', Some ''d.xml'', None), (Some ''t5'', Some ''http://e'', Some ''External'')]))
       = [Some ''rId1'', Some ''rId12'', Some ''R7f'', Some ''rId13'', Some ''rId14'']"
proof -
  have h: "isElem exampleRels" by (simp add: exampleRels_def)
  have e1: "makeRidAllocator exampleRels = ''rId13''" by code_simp
  have e2: "fst (allocateAll exampleRels [(Some ''t4'', Some ''d.xml'', None), (Some ''t5'', Some ''http://e'', Some ''External'')])
       = [''rId13'', ''rId14'']" by code_simp
  have e3: "relIds exampleRels = [Some ''rId1'', Some ''rId12'', Some ''R7f'']" by code_simp
  have b: "ridMax 0 (docElementsByTagNameNS exampleRels NS_pr ''Relationship'')
      + int (length [(Some ''t4'', Some ''d.xml'', None::string option), (Some ''t5'', Some ''http://e'', Some ''External'')])
      < 2 ^ 53"
    by code_simp
  from C10_rid_allocator_collision_free [OF h b]
  have k: "relIds (snd (allocateAll exampleRels [(Some ''t4'', Some ''d.xml'', None), (Some ''t5'', Some ''http://e'', Some ''External'')]))
      = relIds exampleRels @ map Some (fst (allocateAll exampleRels [(Some ''t4'', Some ''d.xml'', None), (Some ''t5'', Some ''http://e'', Some ''External'')]))"
    by (elim conjE)
  have e4: "relIds (snd (allocateAll exampleRels [(Some ''t4'', Some ''d.xml'', None), (Some ''t5'', Some ''http://e'', Some ''External'')]))
       = [Some ''rId1'', Some ''rId12'', Some ''R7f'', Some ''rId13'', Some ''rId14'']"
    unfolding k e2 e3 by simp
  from h e1 e2 e4 show ?thesis by (intro conjI)
qed

section \<open>Styles: the first writer wins\<close>

text \<open>The style ID of an entry as the merge reads it, the entries of a styles table, and their IDs.\<close>

definition styleId :: "xnode \<Rightarrow> string option" where
  "styleId s = attrChain0 s ''styleId'' ''w:styleId'' ''styleId''"

definition styleEntries :: "xnode \<Rightarrow> xnode list" where
  "styleEntries root = docElementsByTagNameNS root NS_w ''style''"

definition styleIds :: "xnode \<Rightarrow> string option list" where
  "styleIds root = map styleId (styleEntries root)"

lemma mapKids_append_appendChild:
  "appendChild (mapKids (\<lambda>ks. ks @ K) b) x = mapKids (\<lambda>ks. ks @ K @ [x]) b"
  by (cases b) (simp_all add: appendChild_def)

lemma mapKids_append_Nil: "mapKids (\<lambda>ks. ks @ []) b = b"
  by (cases b) simp_all

lemma mapKids_mapKids_append: "mapKids (\<lambda>ks. ks @ K) (mapKids (\<lambda>ks. ks @ J) b) = mapKids (\<lambda>ks. ks @ J @ K) b"
  by (cases b) simp_all

lemma appendChild_mapKids: "appendChild b x = mapKids (\<lambda>ks. ks @ [x]) b"
  by (simp add: appendChild_def)

lemma isElem_mapKids [simp]: "isElem (mapKids g b) = isElem b"
  by (cases b) simp_all

lemma stylesLoop_kept:
  "\<exists>K. stylesLoop S ex b = mapKids (\<lambda>ks. ks @ K) b
     \<and> set K \<subseteq> set S
     \<and> (\<forall>s \<in> set K. truthy (styleId s) \<and> styleId s \<notin> set ex)
     \<and> (\<forall>s \<in> set S. truthy (styleId s) \<and> styleId s \<notin> set ex \<longrightarrow> styleId s \<in> set (map styleId K))
     \<and> distinct (map styleId K)"
proof (induction S arbitrary: ex b)
  case Nil
  have "stylesLoop [] ex b = mapKids (\<lambda>ks. ks @ []) b" by (cases b) simp_all
  then show ?case by (intro exI [of _ "[]"]) simp
next
  case (Cons s S)
  show ?case
  proof (cases "truthy (styleId s) \<and> styleId s \<notin> set ex")
    case True
    obtain K where K: "stylesLoop S (styleId s # ex) (appendChild b s) = mapKids (\<lambda>ks. ks @ K) (appendChild b s)"
      "set K \<subseteq> set S"
      "\<forall>t \<in> set K. truthy (styleId t) \<and> styleId t \<notin> set (styleId s # ex)"
      "\<forall>t \<in> set S. truthy (styleId t) \<and> styleId t \<notin> set (styleId s # ex) \<longrightarrow> styleId t \<in> set (map styleId K)"
      "distinct (map styleId K)"
      using Cons [of "styleId s # ex" "appendChild b s"] by blast
    have 1: "stylesLoop (s # S) ex b = mapKids (\<lambda>ks. ks @ (s # K)) b"
      using True K(1) by (simp add: styleId_def [symmetric] appendChild_mapKids mapKids_mapKids_append)
    have 2: "set (s # K) \<subseteq> set (s # S)" using K(2) by auto
    have 3: "\<forall>t \<in> set (s # K). truthy (styleId t) \<and> styleId t \<notin> set ex" using True K(3) by auto
    have 4: "\<forall>t \<in> set (s # S). truthy (styleId t) \<and> styleId t \<notin> set ex \<longrightarrow> styleId t \<in> set (map styleId (s # K))"
      using K(4) by auto
    have 5: "distinct (map styleId (s # K))" using K(3,5) by auto
    from 1 2 3 4 5 show ?thesis by blast
  next
    case False
    obtain K where K: "stylesLoop S ex b = mapKids (\<lambda>ks. ks @ K) b"
      "set K \<subseteq> set S"
      "\<forall>t \<in> set K. truthy (styleId t) \<and> styleId t \<notin> set ex"
      "\<forall>t \<in> set S. truthy (styleId t) \<and> styleId t \<notin> set ex \<longrightarrow> styleId t \<in> set (map styleId K)"
      "distinct (map styleId K)"
      using Cons [of ex b] by blast
    have 1: "stylesLoop (s # S) ex b = mapKids (\<lambda>ks. ks @ K) b"
      using False K(1) by (auto simp add: styleId_def [symmetric])
    have 2: "set K \<subseteq> set (s # S)" using K(2) by auto
    have 4: "\<forall>t \<in> set (s # S). truthy (styleId t) \<and> styleId t \<notin> set ex \<longrightarrow> styleId t \<in> set (map styleId K)"
      using K(4) False by auto
    from 1 2 K(3) 4 K(5) show ?thesis by blast
  qed
qed

lemma descs_mapKids_append:
  "isElem b \<Longrightarrow> descs (mapKids (\<lambda>ks. ks @ K) b) = descs b @ descsKids K"
  by (cases b) (simp_all add: descsKids_append)

lemma hasTag_mapKids [simp]: "hasTag ns l (mapKids g b) = hasTag ns l b"
  by (cases b) simp_all

lemma attrsOf_mapKids [simp]: "attrsOf (mapKids g b) = attrsOf b"
  by (cases b) simp_all

lemma styleId_mapKids [simp]: "styleId (mapKids g b) = styleId b"
  by (simp add: styleId_def attrChain0_def getAttributeNS_def getAttribute_def)

lemma filter_descsKids_flat:
  "\<forall>s \<in> set K. hasTag ns l s \<and> filter (hasTag ns l) (descs s) = [] \<Longrightarrow>
     filter (hasTag ns l) (descsKids K) = K"
proof (induction K)
  case Nil
  show ?case by simp
next
  case (Cons k K)
  then have "hasTag ns l k" "filter (hasTag ns l) (descs k) = []" "filter (hasTag ns l) (descsKids K) = K"
    by auto
  then show ?case using hasTag_isElem [of ns l k] by simp
qed

lemma styleIds_mapKids_append:
  assumes "isElem b" and "\<forall>s \<in> set K. hasTag NS_w ''style'' s \<and> elementsByTagNameNS s NS_w ''style'' = []"
  shows "styleIds (mapKids (\<lambda>ks. ks @ K) b) = styleIds b @ map styleId K"
proof -
  have "filter (hasTag NS_w ''style'') (descsKids K) = K"
    using assms(2) by (intro filter_descsKids_flat) (simp add: elementsByTagNameNS_def)
  then show ?thesis
    using assms(1)
    by (simp add: styleIds_def styleEntries_def docElementsByTagNameNS_def descs_mapKids_append)
qed

text \<open>
  Claim C7. In the styles merge the base styles root keeps all its children, unchanged
  and in place, and gets a list \<open>K\<close> of source style entries appended, as they are in the
  source (no attribute is rewritten). A source style is in \<open>K\<close> only when it has a style ID
  that no base style has (so the definition of the source is dropped when the base has
  the ID); every style ID of the source that no base style has is the ID of an entry of
  \<open>K\<close>; no two entries of \<open>K\<close> share an ID. Consequently, when no source style element
  holds another one and the style IDs of the base are pairwise different, so are the
  style IDs of the merged table.
\<close>

theorem C7_styles_first_writer_wins:
  assumes "isElem baseStyles"
  shows "\<exists>K. mergeStylesRoots baseStyles srcStyles = mapKids (\<lambda>ks. ks @ K) baseStyles
     \<and> set K \<subseteq> set (styleEntries srcStyles)
     \<and> (\<forall>s \<in> set K. truthy (styleId s) \<and> styleId s \<notin> set (styleIds baseStyles))
     \<and> (\<forall>s \<in> set (styleEntries srcStyles).
           truthy (styleId s) \<and> styleId s \<notin> set (styleIds baseStyles) \<longrightarrow> styleId s \<in> set (map styleId K))
     \<and> distinct (map styleId K)
     \<and> ((\<forall>s \<in> set (styleEntries srcStyles). elementsByTagNameNS s NS_w ''style'' = []) \<longrightarrow>
          styleIds (mergeStylesRoots baseStyles srcStyles) = styleIds baseStyles @ map styleId K
          \<and> (distinct (filter truthy (styleIds baseStyles)) \<longrightarrow>
               distinct (filter truthy (styleIds (mergeStylesRoots baseStyles srcStyles)))))"
proof -
  obtain K where K: "mergeStylesRoots baseStyles srcStyles = mapKids (\<lambda>ks. ks @ K) baseStyles"
      "set K \<subseteq> set (styleEntries srcStyles)"
      "\<forall>s \<in> set K. truthy (styleId s) \<and> styleId s \<notin> set (styleIds baseStyles)"
      "\<forall>s \<in> set (styleEntries srcStyles).
           truthy (styleId s) \<and> styleId s \<notin> set (styleIds baseStyles) \<longrightarrow> styleId s \<in> set (map styleId K)"
      "distinct (map styleId K)"
    using stylesLoop_kept [of "styleEntries srcStyles" "styleIds baseStyles" baseStyles]
    unfolding mergeStylesRoots_def styleIds_def styleEntries_def styleId_def by blast
  have last: "styleIds (mergeStylesRoots baseStyles srcStyles) = styleIds baseStyles @ map styleId K
          \<and> (distinct (filter truthy (styleIds baseStyles)) \<longrightarrow>
               distinct (filter truthy (styleIds (mergeStylesRoots baseStyles srcStyles))))"
    if flat: "\<forall>s \<in> set (styleEntries srcStyles). elementsByTagNameNS s NS_w ''style'' = []"
  proof -
    have tags: "\<forall>s \<in> set K. hasTag NS_w ''style'' s \<and> elementsByTagNameNS s NS_w ''style'' = []"
    proof
      fix s assume "s \<in> set K"
      then have "s \<in> set (styleEntries srcStyles)" using K(2) by blast
      moreover from this have "hasTag NS_w ''style'' s"
        by (auto simp add: styleEntries_def docElementsByTagNameNS_def split: if_splits)
      ultimately show "hasTag NS_w ''style'' s \<and> elementsByTagNameNS s NS_w ''style'' = []"
        using flat by blast
    qed
    have ids: "styleIds (mergeStylesRoots baseStyles srcStyles) = styleIds baseStyles @ map styleId K"
      unfolding K(1) by (rule styleIds_mapKids_append [OF assms tags])
    have all: "filter truthy (map styleId K) = map styleId K"
      using K(3) by (induction K) auto
    have "distinct (filter truthy (styleIds (mergeStylesRoots baseStyles srcStyles)))"
      if "distinct (filter truthy (styleIds baseStyles))"
      using that K(3,5) unfolding ids by (auto simp: all)
    with ids show ?thesis by blast
  qed
  from K last show ?thesis by blast
qed


definition styleEl :: "string \<Rightarrow> string \<Rightarrow> xnode" where
  "styleEl sid fmt = Elem NS_w ''w'' ''style'' [Attr NS_w ''w'' ''type'' ''paragraph'', Attr NS_w ''w'' ''styleId'' sid]
                      [Elem NS_w ''w'' ''rPr'' [] [Elem NS_w ''w'' fmt [] []]]"

definition exampleBaseStyles :: xnode where
  "exampleBaseStyles = Elem NS_w ''w'' ''styles'' [] [styleEl ''A'' ''b'', Txt '' '', styleEl ''B'' ''b'']"

definition exampleSrcStyles :: xnode where
  "exampleSrcStyles = Elem NS_w ''w'' ''styles'' []
     [styleEl ''A'' ''i'', styleEl ''C'' ''i'', styleEl ''C'' ''u'', Elem NS_w ''w'' ''style'' [] []]"

theorem C7_styles_witness:
  "isElem exampleBaseStyles
   \<and> mergeStylesRoots exampleBaseStyles exampleSrcStyles
       = Elem NS_w ''w'' ''styles'' [] [styleEl ''A'' ''b'', Txt '' '', styleEl ''B'' ''b'', styleEl ''C'' ''i'']
   \<and> styleIds (mergeStylesRoots exampleBaseStyles exampleSrcStyles) = [Some ''A'', Some ''B'', Some ''C'']
   \<and> distinct (filter truthy (styleIds (mergeStylesRoots exampleBaseStyles exampleSrcStyles)))"
proof -
  have h: "isElem exampleBaseStyles" by (simp add: exampleBaseStyles_def)
  have flat: "\<forall>s \<in> set (styleEntries exampleSrcStyles). elementsByTagNameNS s NS_w ''style'' = []"
    by code_simp
  have d: "distinct (filter truthy (styleIds exampleBaseStyles))" by code_simp
  have e1: "mergeStylesRoots exampleBaseStyles exampleSrcStyles
       = Elem NS_w ''w'' ''styles'' [] [styleEl ''A'' ''b'', Txt '' '', styleEl ''B'' ''b'', styleEl ''C'' ''i'']"
    by code_simp
  have e2: "styleIds (mergeStylesRoots exampleBaseStyles exampleSrcStyles) = [Some ''A'', Some ''B'', Some ''C'']"
    by code_simp
  from C7_styles_first_writer_wins [OF h, of exampleSrcStyles] flat d
  have "distinct (filter truthy (styleIds (mergeStylesRoots exampleBaseStyles exampleSrcStyles)))"
    by blast
  with h e1 e2 show ?thesis by (intro conjI)
qed

section \<open>Positions in a tree\<close>

subsection \<open>Positions\<close>

lemma kidsPaths_nonempty: "p \<in> set (kidsPaths i ks) \<Longrightarrow> p \<noteq> [] \<and> i \<le> hd p"
proof (induction ks arbitrary: i)
  case Nil
  then show ?case by simp
next
  case (Cons k ks)
  from Cons.prems consider "p = [i]" | "p \<in> (#) i ` set (descPaths k)" | "p \<in> set (kidsPaths (Suc i) ks)"
    by (auto split: if_splits)
  then show ?case
  proof cases
    case 3
    then show ?thesis using Cons.IH [of "Suc i"] by auto
  qed auto
qed

lemma descPaths_nonempty: "p \<in> set (descPaths n) \<Longrightarrow> p \<noteq> []"
  by (cases n) (auto dest: kidsPaths_nonempty)





lemma nodeAt_Cons: "nodeAt (Elem ns pre l as ks) (i # p) = (if i < length ks then nodeAt (ks ! i) p else None)"
  by simp







lemma tagPaths_valid:
  assumes "p \<in> set (tagPaths ns l n)"
  shows "\<exists>x. nodeAt n p = Some x \<and> hasTag ns l x"
  using assms by (auto simp: tagPaths_def tagAt_def split: option.splits)

lemma docTagPaths_valid:
  assumes "p \<in> set (docTagPaths ns l n)"
  shows "\<exists>x. nodeAt n p = Some x \<and> hasTag ns l x"
  using assms by (auto simp: docTagPaths_def tagAt_def split: option.splits if_splits)

subsection \<open>Attribute updates at a position\<close>

lemma kidsOf_mapAttrs [simp]: "kidsOf (mapAttrs g n) = kidsOf n"
  by (cases n) simp_all

lemma attrsOf_mapAttrs: "isElem n \<Longrightarrow> attrsOf (mapAttrs g n) = g (attrsOf n)"
  by (cases n) simp_all

lemma isElem_mapAttrs [simp]: "isElem (mapAttrs g n) = isElem n"
  by (cases n) simp_all

lemma hasTag_mapAttrs [simp]: "hasTag ns l (mapAttrs g n) = hasTag ns l n"
  by (cases n) simp_all

lemma kidsOf_mapKids: "isElem n \<Longrightarrow> kidsOf (mapKids g n) = g (kidsOf n)"
  by (cases n) simp_all

lemma mapKids_not_elem: "\<not> isElem n \<Longrightarrow> mapKids g n = n"
  by (cases n) simp_all

lemma kidsOf_not_elem: "\<not> isElem n \<Longrightarrow> kidsOf n = []"
  by (cases n) simp_all

lemma nodeAt_updAt_same:
  "nodeAt n p = Some x \<Longrightarrow> nodeAt (updAt p f n) p = Some (f x)"
proof (induction p arbitrary: n)
  case Nil
  then show ?case by simp
next
  case (Cons i p)
  then have i: "i < length (kidsOf n)" and x: "nodeAt (kidsOf n ! i) p = Some x"
    by (auto split: if_splits)
  then have el: "isElem n" using kidsOf_not_elem [of n] by (cases "isElem n") auto
  show ?case using i Cons.IH [OF x] by (simp add: kidsOf_mapKids [OF el])
qed

text \<open>The attributes at a position after an attribute update at a position.\<close>

lemma hasTag_updAt_attrs:
  "tagAt ns l (updAt p (mapAttrs g) n) q = tagAt ns l n q"
proof (induction p arbitrary: n q)
  case Nil
  show ?case by (cases q) (simp_all add: tagAt_def)
next
  case (Cons i p)
  show ?case
  proof (cases "i < length (kidsOf n)")
    case False
    then show ?thesis by simp
  next
    case True
    then have el: "isElem n" using kidsOf_not_elem [of n] by (cases "isElem n") auto
    show ?thesis
    proof (cases q)
      case Nil
      then show ?thesis using True by (simp add: tagAt_def)
    next
      case (Cons j q')
      show ?thesis
      proof (cases "j = i")
        case True
        then show ?thesis
          using \<open>i < length (kidsOf n)\<close> Cons.IH [of "kidsOf n ! i" q'] Cons
          by (simp add: tagAt_def kidsOf_mapKids [OF el])
      next
        case False
        then show ?thesis
          using \<open>i < length (kidsOf n)\<close> Cons
          by (simp add: tagAt_def kidsOf_mapKids [OF el])
      qed
    qed
  qed
qed



lemma kidsPaths_update:
  assumes "i < length ks" and "descPaths k' = descPaths (ks ! i)" and "isElem k' = isElem (ks ! i)"
  shows "kidsPaths j (ks[i := k']) = kidsPaths j ks"
  using assms
proof (induction ks arbitrary: i j)
  case Nil
  then show ?case by simp
next
  case (Cons k ks)
  then show ?case by (cases i) simp_all
qed

lemma descPaths_updAt_attrs:
  "descPaths (updAt p (mapAttrs g) n) = descPaths n \<and> isElem (updAt p (mapAttrs g) n) = isElem n"
proof (induction p arbitrary: n)
  case Nil
  show ?case by (cases n) simp_all
next
  case (Cons i p)
  show ?case
  proof (cases n)
    case (Elem ns pre l as ks)
    then show ?thesis using Cons [of "ks ! i"] by (simp add: kidsPaths_update)
  qed simp_all
qed

lemma tagPaths_updAt_attrs: "tagPaths ns l (updAt p (mapAttrs g) n) = tagPaths ns l n"
  by (simp add: tagPaths_def descPaths_updAt_attrs hasTag_updAt_attrs cong: filter_cong)

lemma docTagPaths_updAt_attrs: "docTagPaths ns l (updAt p (mapAttrs g) n) = docTagPaths ns l n"
  unfolding docTagPaths_def
  by (simp only: descPaths_updAt_attrs hasTag_updAt_attrs cong: filter_cong)

section \<open>Notes: fresh IDs, negative IDs untouched\<close>










lemma isElem_setAttributeNS [simp]: "isElem (setAttributeNS n ns pre l v) = isElem n"
  by (simp add: setAttributeNS_def)

lemma hasTag_setAttributeNS [simp]: "hasTag t u (setAttributeNS n ns pre l v) = hasTag t u n"
  by (simp add: setAttributeNS_def)













lemma jsNonNeg_simps [simp]: "jsNonNeg None = False" "jsNonNeg (Some i) = (0 \<le> i)"
  by (simp_all add: jsNonNeg_def)












section \<open>Errors of the stages\<close>

text \<open>The errors that reading a part or touching the DOM raises.\<close>

definition ioError :: "error \<Rightarrow> bool" where
  "ioError e = (case e of MissingPart p \<Rightarrow> True | XmlParseError \<Rightarrow> True | TypeError \<Rightarrow> True
                  | NotFoundError \<Rightarrow> True | _ \<Rightarrow> False)"

lemma ioError_simps [simp]:
  "ioError (MissingPart p)" "ioError XmlParseError" "ioError TypeError" "ioError NotFoundError"
  "\<not> ioError NoInsertionPerformed" "\<not> ioError InsufficientSources" "\<not> ioError NoInsertionMode"
  by (simp_all add: ioError_def)



























section \<open>When the merge fails with \<open>NoInsertionPerformed\<close>\<close>

lemma withDefaults_simps [simp]:
  "pattern (withDefaults o') = o_pattern o'"
  "insertStart (withDefaults o') = (o_insertStart o' = Some True)"
  "insertEnd (withDefaults o') = (o_insertEnd o' = Some True)"
  "pageBreaks (withDefaults o') = (o_pageBreaks o' \<noteq> Some False)"
  "mergeNumbering (withDefaults o') = (o_mergeNumbering o' \<noteq> Some False)"
  "mergeStyles (withDefaults o') = (o_mergeStyles o' \<noteq> Some False)"
  "mergeFootnotes (withDefaults o') = (o_mergeFootnotes o' \<noteq> Some False)"
  by (simp_all add: withDefaults_def)




text \<open>Small packages and options for the examples.\<close>

definition exPara :: "string \<Rightarrow> xnode" where
  "exPara t = Elem NS_w ''w'' ''p'' [] [Elem NS_w ''w'' ''r'' [] [Elem NS_w ''w'' ''t'' [] [Txt t]]]"

definition exSectPr :: xnode where
  "exSectPr = Elem NS_w ''w'' ''sectPr'' [] [Elem NS_w ''w'' ''pgSz'' [Attr NS_w ''w'' ''w'' ''11906''] []]"

definition exDocument :: "xnode list \<Rightarrow> xnode" where
  "exDocument ks = Elem NS_w ''w'' ''document'' [] [Elem NS_w ''w'' ''body'' [] ks]"

definition exContentTypes :: xnode where
  "exContentTypes = Elem ''http://schemas.openxmlformats.org/package/2006/content-types'' [] ''Types'' []
     [Elem ''http://schemas.openxmlformats.org/package/2006/content-types'' [] ''Default''
        [Attr [] [] ''Extension'' ''xml'', Attr [] [] ''ContentType'' ''application/xml''] []]"

definition exPackage :: "xnode list \<Rightarrow> zip" where
  "exPackage ks = [(P_ct, Xml exContentTypes), (P_document, Xml (exDocument ks)), (P_docRels, Xml relsSkeleton)]"

definition exOptions :: "string option \<Rightarrow> bool \<Rightarrow> bool \<Rightarrow> MergeOptions" where
  "exOptions pat atStart atEnd =
     \<lparr> o_pattern = pat, o_insertStart = Some atStart, o_insertEnd = Some atEnd, o_pageBreaks = Some False,
       o_mergeNumbering = Some False, o_mergeStyles = Some False, o_mergeFootnotes = Some False \<rparr>"


section \<open>The trailing section properties\<close>

lemma kidsPaths_append: "kidsPaths i (ks @ ms) = kidsPaths i ks @ kidsPaths (i + length ks) ms"
  by (induction ks arbitrary: i) simp_all

lemma tagAt_Cons:
  "tagAt ns l (Elem ens pre el as ks) (i # q) = (i < length ks \<and> tagAt ns l (ks ! i) q)"
  by (simp add: tagAt_def)

lemma last_tagPaths_snoc:
  assumes "hasTag ns l k"
  shows "tagPaths ns l (Elem ens pre el as (ks @ [k])) \<noteq> []
     \<and> last (tagPaths ns l (Elem ens pre el as (ks @ [k]))) =
         (if tagPaths ns l k = [] then [length ks] else length ks # last (tagPaths ns l k))"
proof -
  let ?b = "Elem ens pre el as (ks @ [k])"
  have el: "isElem k" using assms by (rule hasTag_isElem)
  have 1: "filter (tagAt ns l ?b) (map ((#) (length ks)) (descPaths k)) = map ((#) (length ks)) (tagPaths ns l k)"
    by (simp add: filter_map comp_def tagAt_Cons tagPaths_def)
  have 2: "tagAt ns l ?b [length ks]" using assms by (simp add: tagAt_def)
  have "tagPaths ns l ?b = filter (tagAt ns l ?b) (kidsPaths 0 ks) @ [length ks] # map ((#) (length ks)) (tagPaths ns l k)"
    using el 1 2 by (simp add: tagPaths_def kidsPaths_append)
  then show ?thesis by (simp add: last_map)
qed

lemma detachSectPr_last:
  assumes "detachSectPr (Some body) = Inr (body', sect)"
    and "kidsOf body \<noteq> []" and "hasTag NS_w ''sectPr'' (last (kidsOf body))"
  shows "sect = Some (last (kidsOf body)) \<and> body' = Some (mapKids butlast body)"
proof -
  obtain ens pre el as ks0 where body: "body = Elem ens pre el as ks0"
    using assms(2) by (cases body) auto
  then have ks0: "ks0 \<noteq> []" using assms(2) by simp
  define ks k where "ks = butlast ks0" and "k = last ks0"
  then have split: "ks0 = ks @ [k]" using ks0 by simp
  have k: "hasTag NS_w ''sectPr'' k" using assms(3) body k_def by simp
  note L = last_tagPaths_snoc [OF k, of ens pre el as ks]
  obtain p ps where pps: "tagPaths NS_w ''sectPr'' body = p # ps"
    using L body split by (cases "tagPaths NS_w ''sectPr'' body") auto
  then have ls: "lastSectPr body = Some (last (tagPaths NS_w ''sectPr'' body))"
    by (simp add: lastSectPr_def)
  show ?thesis
  proof (cases "tagPaths NS_w ''sectPr'' k = []")
    case True
    then have "lastSectPr body = Some [length ks]" using ls L body split by simp
    then show ?thesis using assms(1) body split
      by (auto simp: detachSectPr_def removeChild_def nth_append)
  next
    case False
    then have "lastSectPr body = Some (length ks # last (tagPaths NS_w ''sectPr'' k))"
      using ls L body split by simp
    moreover have "last (tagPaths NS_w ''sectPr'' k) \<noteq> []"
      using False descPaths_nonempty [of "last (tagPaths NS_w ''sectPr'' k)" k]
        last_in_set [OF False] by (auto simp: tagPaths_def)
    ultimately have "detachSectPr (Some body) = Inl NotFoundError"
      by (auto simp: detachSectPr_def removeChild_def split: list.splits)
    with assms(1) show ?thesis by simp
  qed
qed

subsection \<open>The stages keep the body element\<close>

text \<open>Two nodes are both elements with the same tag, or both not elements.\<close>

definition sameTag :: "xnode \<Rightarrow> xnode \<Rightarrow> bool" where
  "sameTag b' b = (isElem b' = isElem b \<and> (\<forall>ns l. hasTag ns l b' = hasTag ns l b))"

lemma sameTag_refl [simp]: "sameTag b b"
  by (simp add: sameTag_def)

lemma sameTag_trans: "sameTag c b \<Longrightarrow> sameTag b a \<Longrightarrow> sameTag c a"
  by (simp add: sameTag_def)

lemma sameTag_mapKids [simp]: "sameTag (mapKids g b) b"
  by (simp add: sameTag_def)

lemma sameTag_appendChild [simp]: "sameTag (appendChild b x) b"
  by (simp add: sameTag_def)

lemma sameTag_updAt: "(\<And>x. sameTag (f x) x) \<Longrightarrow> sameTag (updAt p f n) n"
  by (cases p) simp_all

lemma appendDocInto_elem:
  "appendDocInto opt z atEnd st (Some b) = Inr (st', r) \<Longrightarrow> \<exists>b'. r = Some b' \<and> sameTag b' b"
  by (auto simp: appendDocInto_def Let_def sameTag_def split: sum.splits prod.splits)

lemma appendAll_elem:
  "appendAll opt zs atEnd st (Some b) = Inr (st', r) \<Longrightarrow> \<exists>b'. r = Some b' \<and> sameTag b' b"
proof (induction zs arbitrary: st b)
  case Nil
  then show ?case by auto
next
  case (Cons z zs)
  from Cons.prems obtain st1 r1 where 1: "appendDocInto opt z atEnd st (Some b) = Inr (st1, r1)"
    and 2: "appendAll opt zs atEnd st1 r1 = Inr (st', r)"
    by (auto split: sum.splits prod.splits)
  from appendDocInto_elem [OF 1] obtain b1 where b1: "r1 = Some b1" "sameTag b1 b" by blast
  with Cons.IH [of st1 b1] 2 obtain b' where "r = Some b'" "sameTag b' b1" by auto
  with b1(2) show ?case by (auto intro: sameTag_trans)
qed

lemma insertAll_elem:
  "insertAll opt zs st b a = Inr (st', b', a') \<Longrightarrow> sameTag b' b"
proof (induction zs arbitrary: st b a)
  case Nil
  then show ?case by simp
next
  case (Cons z zs)
  from Cons.prems obtain st1 b1 a1 where 1: "insertDocBefore opt z st b a = Inr (st1, b1, a1)"
    and 2: "insertAll opt zs st1 b1 a1 = Inr (st', b', a')"
    by (auto split: sum.splits prod.splits)
  have "sameTag b1 b"
    using 1 by (auto simp: insertDocBefore_def sameTag_updAt split: sum.splits prod.splits)
  with Cons.IH [OF 2] show ?case by (auto intro: sameTag_trans)
qed

lemma startStage_elem:
  "startStage opt zs st (Some b) = Inr (st', r) \<Longrightarrow> \<exists>b'. r = Some b' \<and> sameTag b' b"
  by (cases "insertStart opt") (auto simp: startStage_def dest: appendAll_elem)

lemma endStage_elem:
  "endStage opt zs st (Some b) = Inr (st', r) \<Longrightarrow> \<exists>b'. r = Some b' \<and> sameTag b' b"
  by (cases "insertEnd opt") (auto simp: endStage_def dest: appendAll_elem)

lemma patternStage_elem:
  "patternStage opt zs st (Some b) = Inr (st', r, found) \<Longrightarrow> \<exists>b'. r = Some b' \<and> sameTag b' b"
  by (auto simp: patternStage_def split: if_splits list.splits sum.splits prod.splits dest: insertAll_elem)

lemma mergeDocx_success:
  assumes "snd (mergeDocx inputBuffers options) = Inr z"
  shows "\<exists>ld st1 body1 st2 body2 found st3 body3.
           loadBase (hd inputBuffers) = Inr ld
         \<and> startStage (withDefaults options) (tl inputBuffers) (l_state ld) (l_body ld) = Inr (st1, body1)
         \<and> patternStage (withDefaults options) (tl inputBuffers) st1 body1 = Inr (st2, body2, found)
         \<and> endStage (withDefaults options) (tl inputBuffers) st2 body2 = Inr (st3, body3)
         \<and> z = packageOf (finalDoc (l_doc ld) (l_bodyPath ld) (finalBody body3 (l_sectPr ld))) st3"
  using assms
  by (auto simp: mergeDocx_def Let_def split: if_splits sum.splits prod.splits)

lemma map_of_packageOf: "map_of (packageOf doc st) P_document = Some (Xml doc)"
  by (simp add: packageOf_def writeXml_def update_conv' P_document_def P_docRels_def P_ct_def)

lemma loadBase_parts:
  assumes "loadBase bz = Inr ld"
  shows "readXml bz P_document = Inr (l_doc ld) \<and> l_bodyPath ld = bodyEl (l_doc ld)
     \<and> detachSectPr (case bodyEl (l_doc ld) of None \<Rightarrow> None | Some bp \<Rightarrow> nodeAt (l_doc ld) bp)
         = Inr (l_body ld, l_sectPr ld)"
  using assms by (auto simp: loadBase_def split: sum.splits prod.splits cong: option.case_cong)

text \<open>The positions of the elements with a tag below the children \<open>ks\<close>, the first child at index \<open>i\<close>.\<close>

fun kidsTagPaths :: "string \<Rightarrow> string \<Rightarrow> nat \<Rightarrow> xnode list \<Rightarrow> path list" where
  "kidsTagPaths ns l i [] = []"
| "kidsTagPaths ns l i (k # ks) = map ((#) i) (docTagPaths ns l k) @ kidsTagPaths ns l (Suc i) ks"

lemma filter_kidsPaths:
  assumes "drop i ks0 = ks"
  shows "filter (tagAt ns l (Elem e pr el as ks0)) (kidsPaths i ks) = kidsTagPaths ns l i ks"
  using assms
proof (induction ks arbitrary: i)
  case Nil
  show ?case by simp
next
  case (Cons k ks)
  have i: "i < length ks0"
  proof (rule ccontr)
    assume "\<not> i < length ks0"
    then have "drop i ks0 = []" by simp
    with Cons.prems show False by simp
  qed
  have k: "ks0 ! i = k" using Cons.prems i by (metis nth_via_drop)
  have rest: "drop (Suc i) ks0 = ks" using Cons.prems i by (metis Cons_nth_drop_Suc list.inject)
  have a: "filter (tagAt ns l (Elem e pr el as ks0)) (map ((#) i) (descPaths k)) = map ((#) i) (tagPaths ns l k)"
    using i k by (simp add: filter_map comp_def tagAt_Cons tagPaths_def)
  have b: "tagAt ns l (Elem e pr el as ks0) [i] = hasTag ns l k"
    using i k by (simp add: tagAt_def)
  have c: "hasTag ns l k \<Longrightarrow> isElem k" by (rule hasTag_isElem)
  have d: "docTagPaths ns l k = (if hasTag ns l k then [[]] else []) @ tagPaths ns l k"
    by (simp add: docTagPaths_def tagPaths_def tagAt_def)
  show ?case using a b c d Cons.IH [OF rest] by auto
qed

lemma docTagPaths_Elem:
  "docTagPaths ns l (Elem e pr el as ks) =
     (if e = ns \<and> el = l then [[]] else []) @ kidsTagPaths ns l 0 ks"
proof -
  have "filter (tagAt ns l (Elem e pr el as ks)) (kidsPaths 0 ks) = kidsTagPaths ns l 0 ks"
    by (rule filter_kidsPaths) simp
  moreover have "tagAt ns l (Elem e pr el as ks) [] = (e = ns \<and> el = l)" by (simp add: tagAt_def)
  ultimately show ?thesis unfolding docTagPaths_def by (cases "e = ns \<and> el = l") auto
qed

lemma kidsTagPaths_head:
  assumes "kidsTagPaths ns l j ks = (i # q) # rest"
  shows "j \<le> i \<and> i - j < length ks \<and> (\<exists>r. docTagPaths ns l (ks ! (i - j)) = q # r)"
  using assms
proof (induction ks arbitrary: j)
  case Nil
  then show ?case by simp
next
  case (Cons k ks)
  show ?case
  proof (cases "docTagPaths ns l k")
    case Nil
    then have t: "kidsTagPaths ns l (Suc j) ks = (i # q) # rest" using Cons.prems(1) by simp
    from Cons.IH [OF t] have ih: "Suc j \<le> i" "i - Suc j < length ks"
      "\<exists>r. docTagPaths ns l (ks ! (i - Suc j)) = q # r" by auto
    have ij: "i - j = Suc (i - Suc j)" using ih(1) by simp
    show ?thesis using ih by (auto simp: ij)
  next
    case (Cons p0 ps)
    then have "i = j" "q = p0" using Cons.prems(1) by auto
    then show ?thesis using Cons by simp
  qed
qed

lemma kidsTagPaths_update:
  assumes "kidsTagPaths ns l j ks = (i # q) # rest" and "docTagPaths ns l k' = q # rest'"
  shows "\<exists>r. kidsTagPaths ns l j (ks[i - j := k']) = (i # q) # r"
  using assms
proof (induction ks arbitrary: j)
  case Nil
  then show ?case by simp
next
  case (Cons k ks)
  show ?case
  proof (cases "docTagPaths ns l k")
    case Nil
    then have t: "kidsTagPaths ns l (Suc j) ks = (i # q) # rest" using Cons.prems(1) by simp
    from kidsTagPaths_head [OF t] have le: "Suc j \<le> i" by simp
    then have ij: "i - j = Suc (i - Suc j)" by simp
    from Cons.IH [OF t Cons.prems(2)] show ?thesis using Nil by (auto simp: ij)
  next
    case (Cons p0 ps)
    then have "i = j" "q = p0" using Cons.prems(1) by auto
    then show ?thesis using Cons.prems(2) by simp
  qed
qed

lemma first_tagPath_stable:
  assumes "docTagPaths ns l n = p # rest" and "hasTag ns l y"
  shows "\<exists>rest'. docTagPaths ns l (updAt p (\<lambda>n. y) n) = p # rest'"
  using assms
proof (induction p arbitrary: n rest)
  case Nil
  then show ?case by (simp add: docTagPaths_def tagAt_def)
next
  case (Cons i q)
  show ?case
  proof (cases n)
    case (Elem e pr el as ks)
    have root: "\<not> (e = ns \<and> el = l)"
      using Cons.prems(1) Elem by (auto simp: docTagPaths_Elem)
    then have kt: "kidsTagPaths ns l 0 ks = (i # q) # rest"
      using Cons.prems(1) Elem by (auto simp: docTagPaths_Elem)
    from kidsTagPaths_head [OF kt] obtain r where i: "i < length ks"
      and r: "docTagPaths ns l (ks ! i) = q # r" by auto
    from Cons.IH [OF r Cons.prems(2)] obtain r' where
      r': "docTagPaths ns l (updAt q (\<lambda>n. y) (ks ! i)) = q # r'" by blast
    from kidsTagPaths_update [OF kt r'] obtain r'' where
      "kidsTagPaths ns l 0 (ks[i := updAt q (\<lambda>n. y) (ks ! i)]) = (i # q) # r''" by auto
    then show ?thesis using Elem i root by (auto simp: docTagPaths_Elem)
  next
    case (Txt s)
    then show ?thesis using Cons.prems by (simp add: docTagPaths_def tagAt_def)
  next
    case (Misc s)
    then show ?thesis using Cons.prems by (simp add: docTagPaths_def tagAt_def)
  qed
qed

lemma bodyEl_stable:
  assumes "bodyEl doc = Some bp" and "hasTag NS_w ''body'' y"
  shows "bodyEl (updAt bp (\<lambda>n. y) doc) = Some bp"
proof -
  from assms(1) obtain rest where "docTagPaths NS_w ''body'' doc = bp # rest"
    by (auto simp: bodyEl_def split: list.splits)
  from first_tagPath_stable [OF this assms(2)] show ?thesis by (auto simp: bodyEl_def)
qed

text \<open>
  Claim C8. For every successful merge whose base document body, at position \<open>bp\<close>, has
  a section-properties element as its last child: the output document has its body at
  the same position, and the last child of that body is the same section-properties
  element, unchanged, whatever was inserted and whichever modes were active. (The
  element is detached when the base is loaded, \<open>detachSectPr\<close>, and appended again by
  \<open>finalBody\<close> after the three stages.)
\<close>

theorem C8_sectPr_stays_last:
  assumes ok: "snd (mergeDocx inputBuffers options) = Inr z"
    and doc: "readXml (hd inputBuffers) P_document = Inr baseDoc"
    and bp: "bodyEl baseDoc = Some bp"
    and body: "nodeAt baseDoc bp = Some body"
    and ends: "kidsOf body \<noteq> []" "hasTag NS_w ''sectPr'' (last (kidsOf body))"
  shows "\<exists>doc' body'. map_of z P_document = Some (Xml doc') \<and> bodyEl doc' = Some bp
           \<and> nodeAt doc' bp = Some body'
           \<and> kidsOf body' \<noteq> [] \<and> last (kidsOf body') = last (kidsOf body)"
proof -
  from mergeDocx_success [OF ok] obtain ld st1 body1 st2 body2 found st3 body3 where
    ld: "loadBase (hd inputBuffers) = Inr ld"
    and s1: "startStage (withDefaults options) (tl inputBuffers) (l_state ld) (l_body ld) = Inr (st1, body1)"
    and s2: "patternStage (withDefaults options) (tl inputBuffers) st1 body1 = Inr (st2, body2, found)"
    and s3: "endStage (withDefaults options) (tl inputBuffers) st2 body2 = Inr (st3, body3)"
    and z: "z = packageOf (finalDoc (l_doc ld) (l_bodyPath ld) (finalBody body3 (l_sectPr ld))) st3"
    by blast
  from loadBase_parts [OF ld] doc have d: "l_doc ld = baseDoc" and p: "l_bodyPath ld = Some bp"
    and det: "detachSectPr (Some body) = Inr (l_body ld, l_sectPr ld)"
    using bp body by auto
  from detachSectPr_last [OF det ends] have sect: "l_sectPr ld = Some (last (kidsOf body))"
    and b0: "l_body ld = Some (mapKids butlast body)" by auto
  have tag: "hasTag NS_w ''body'' body"
  proof -
    from bp have "bp \<in> set (docTagPaths NS_w ''body'' baseDoc)"
      by (auto simp: bodyEl_def split: list.splits)
    from docTagPaths_valid [OF this] body show ?thesis by simp
  qed
  from startStage_elem [OF s1 [unfolded b0]] obtain b1 where b1: "body1 = Some b1" "sameTag b1 (mapKids butlast body)" by auto
  from patternStage_elem [OF s2 [unfolded b1(1)]] obtain b2 where b2: "body2 = Some b2" "sameTag b2 b1" by auto
  from endStage_elem [OF s3 [unfolded b2(1)]] obtain b3 where b3: "body3 = Some b3" "sameTag b3 b2" by auto
  have same: "sameTag b3 body"
    using b1(2) b2(2) b3(2) by (auto intro: sameTag_trans [OF _ sameTag_mapKids] sameTag_trans)
  then have el3: "isElem b3" using tag hasTag_isElem by (auto simp: sameTag_def)
  let ?b' = "appendChild b3 (last (kidsOf body))"
  have tag': "hasTag NS_w ''body'' ?b'" using same tag by (simp add: sameTag_def)
  have fb: "finalBody body3 (l_sectPr ld) = Some ?b'" by (simp add: finalBody_def sect b3)
  have fd: "finalDoc (l_doc ld) (l_bodyPath ld) (finalBody body3 (l_sectPr ld)) = updAt bp (\<lambda>n. ?b') baseDoc"
    by (simp add: finalDoc_def fb d p)
  have 1: "map_of z P_document = Some (Xml (updAt bp (\<lambda>n. ?b') baseDoc))"
    by (simp add: z fd map_of_packageOf)
  have 2: "nodeAt (updAt bp (\<lambda>n. ?b') baseDoc) bp = Some ?b'"
    by (rule nodeAt_updAt_same [OF body])
  have 3: "kidsOf ?b' = kidsOf b3 @ [last (kidsOf body)]"
    by (simp add: appendChild_def kidsOf_mapKids [OF el3])
  have 4: "bodyEl (updAt bp (\<lambda>n. ?b') baseDoc) = Some bp"
    by (rule bodyEl_stable [OF bp tag'])
  from 1 2 3 4 show ?thesis by auto
qed

definition exInputs :: "zip list" where
  "exInputs = [exPackage [exPara ''Alpha'', exPara ''ANCHOR'', exSectPr],
               exPackage [exPara ''Insert1'', exSectPr], exPackage [exPara ''Insert2'']]"

theorem C8_sectPr_witness:
  "\<exists>z doc' body'.
       snd (mergeDocx exInputs (exOptions (Some ''ANCHOR'') False True)) = Inr z
     \<and> map_of z P_document = Some (Xml doc') \<and> bodyEl doc' = Some [0] \<and> nodeAt doc' [0] = Some body'
     \<and> last (kidsOf body') = exSectPr
     \<and> doc' = exDocument [exPara ''Alpha'', exPara ''Insert1'', exPara ''Insert2'', exPara ''ANCHOR'',
                           exPara ''Insert1'', exPara ''Insert2'', exSectPr]"
proof -
  let ?o = "exOptions (Some ''ANCHOR'') False True"
  let ?base = "exDocument [exPara ''Alpha'', exPara ''ANCHOR'', exSectPr]"
  let ?body = "Elem NS_w ''w'' ''body'' [] [exPara ''Alpha'', exPara ''ANCHOR'', exSectPr]"
  let ?out = "exDocument [exPara ''Alpha'', exPara ''Insert1'', exPara ''Insert2'', exPara ''ANCHOR'',
                           exPara ''Insert1'', exPara ''Insert2'', exSectPr]"
  have e: "(case snd (mergeDocx exInputs ?o) of Inl e \<Rightarrow> None | Inr z \<Rightarrow> map_of z P_document) = Some (Xml ?out)"
    by code_simp
  then obtain z where z: "snd (mergeDocx exInputs ?o) = Inr z" and zd: "map_of z P_document = Some (Xml ?out)"
    by (auto split: sum.splits)
  have doc: "readXml (hd exInputs) P_document = Inr ?base" by code_simp
  have bp: "bodyEl ?base = Some [0]" by code_simp
  have body: "nodeAt ?base [0] = Some ?body" by code_simp
  have ends: "kidsOf ?body \<noteq> []" "hasTag NS_w ''sectPr'' (last (kidsOf ?body))" by code_simp+
  have l: "last (kidsOf ?body) = exSectPr" by simp
  from C8_sectPr_stays_last [OF z doc bp body ends] obtain doc' body' where
    r: "map_of z P_document = Some (Xml doc')" "bodyEl doc' = Some [0]" "nodeAt doc' [0] = Some body'"
      "last (kidsOf body') = last (kidsOf ?body)" by blast
  from r(1) zd have "doc' = ?out" by simp
  with z r l show ?thesis by auto
qed

section \<open>Pattern mode: the sources go before the first match\<close>

text \<open>
  \<open>importAll\<close> imports the sources one after the other, threading the base package, and
  collects the node lists \<open>importBodyNodes\<close> returns: it is what the loop over
  \<open>insertDocBefore\<close> imports, without the splicing.
\<close>

section \<open>Pattern mode\<close>

text \<open>The imports of the sources in turn: the lists of nodes they yield and the final state.\<close>

fun importAll :: "RequiredMergeOptions \<Rightarrow> zip list \<Rightarrow> base_state \<Rightarrow> error + (xnode list list \<times> base_state)" where
  "importAll opt [] st = Inr ([], st)"
| "importAll opt (z # zs) st =
     (case importBodyNodes opt z st of
        Inl e \<Rightarrow> Inl e
      | Inr (nodes, st') \<Rightarrow>
          (case importAll opt zs st' of
             Inl e \<Rightarrow> Inl e
           | Inr (rest, st'') \<Rightarrow> Inr (nodes # rest, st'')))"

lemma updAt_updAt: "updAt p f (updAt p g n) = updAt p (\<lambda>x. f (g x)) n"
proof (induction p arbitrary: n)
  case Nil
  show ?case by simp
next
  case (Cons i p)
  show ?case
  proof (cases n)
    case (Elem ns pre l as ks)
    then show ?thesis using Cons by simp
  qed simp_all
qed

lemma mapKids_mapKids: "mapKids f (mapKids g n) = mapKids (\<lambda>ks. f (g ks)) n"
  by (cases n) simp_all

lemma splice_twice:
  "take (i + length A) (take i ks @ A @ drop i ks) @ B @ drop (i + length A) (take i ks @ A @ drop i ks)
     = take i ks @ (A @ B) @ drop i ks"
proof (cases "i \<le> length ks")
  case True
  then have "length (take i ks) = i" by simp
  then show ?thesis by (simp add: take_append drop_append)
next
  case False
  then show ?thesis by simp
qed

lemma updAt_id: "updAt p (\<lambda>n. n) b = b"
proof (induction p arbitrary: b)
  case Nil
  show ?case by simp
next
  case (Cons i p)
  show ?case by (cases b) (simp_all add: Cons)
qed

lemma mapKids_id: "mapKids (\<lambda>ks. ks) = (\<lambda>n. n)"
proof (rule ext)
  fix n show "mapKids (\<lambda>ks. ks) n = n" by (cases n) simp_all
qed

lemma insertAll_char:
  assumes "a \<noteq> []"
  shows "insertAll opt zs st b a =
     (case importAll opt zs st of
        Inl e \<Rightarrow> Inl e
      | Inr (nss, st') \<Rightarrow>
          Inr (st',
               updAt (butlast a) (mapKids (\<lambda>ks. take (last a) ks @ concat nss @ drop (last a) ks)) b,
               butlast a @ [last a + length (concat nss)]))"
  using assms
proof (induction zs arbitrary: st b a)
  case Nil
  then show ?case by (simp add: mapKids_id updAt_id)
next
  case (Cons z zs)
  show ?case
  proof (cases "importBodyNodes opt z st")
    case (Inl e)
    then show ?thesis by (simp add: insertDocBefore_def)
  next
    case (Inr r)
    obtain nodes st1 where r: "r = (nodes, st1)" by (cases r)
    let ?pp = "butlast a" and ?i = "last a"
    let ?b1 = "updAt ?pp (mapKids (\<lambda>ks. take ?i ks @ nodes @ drop ?i ks)) b"
    let ?a1 = "?pp @ [?i + length nodes]"
    have step: "insertDocBefore opt z st b a = Inr (st1, ?b1, ?a1)"
      using Inr r by (simp add: insertDocBefore_def)
    have a1: "?a1 \<noteq> []" "butlast ?a1 = ?pp" "last ?a1 = ?i + length nodes" by simp_all
    show ?thesis
    proof (cases "importAll opt zs st1")
      case (Inl e)
      then show ?thesis using step Inr r Cons.IH [OF a1(1), of st1 ?b1] by simp
    next
      case rest: (Inr r')
      obtain nss st' where r': "r' = (nss, st')" by (cases r')
      have "updAt ?pp (mapKids (\<lambda>ks. take (?i + length nodes) ks @ concat nss @ drop (?i + length nodes) ks)) ?b1
          = updAt ?pp (mapKids (\<lambda>ks. take ?i ks @ concat (nodes # nss) @ drop ?i ks)) b"
        by (simp only: updAt_updAt mapKids_mapKids splice_twice concat.simps)
      then show ?thesis
        using step Inr r rest r' Cons.IH [OF a1(1), of st1 ?b1] by (simp add: a1)
    qed
  qed
qed

lemma nodeAt_snoc:
  "nodeAt n (p @ [i]) =
     (case nodeAt n p of None \<Rightarrow> None
      | Some x \<Rightarrow> if i < length (kidsOf x) then Some (kidsOf x ! i) else None)"
  by (induction p arbitrary: n) simp_all

lemma findParagraphs_anchor:
  assumes "findParagraphsContainingText b pat = anchor # others"
  shows "anchor \<noteq> [] \<and> (\<exists>parent pn. nodeAt b (butlast anchor) = Some parent \<and> isElem parent
       \<and> last anchor < length (kidsOf parent)
       \<and> kidsOf parent ! last anchor = pn \<and> hasTag NS_w ''p'' pn \<and> includes_str (paragraphText pn) pat)"
proof -
  have mem: "anchor \<in> set (findParagraphsContainingText b pat)" using assms by simp
  then have t: "anchor \<in> set (tagPaths NS_w ''p'' b)"
    and m: "case nodeAt b anchor of None \<Rightarrow> False | Some pn \<Rightarrow> includes_str (paragraphText pn) pat"
    by (auto simp: findParagraphsContainingText_def)
  from tagPaths_valid [OF t] obtain pn where pn: "nodeAt b anchor = Some pn" "hasTag NS_w ''p'' pn" by blast
  have ne: "anchor \<noteq> []" using t descPaths_nonempty [of anchor b] by (auto simp: tagPaths_def)
  then have a: "anchor = butlast anchor @ [last anchor]" by simp
  from pn(1) obtain parent where parent: "nodeAt b (butlast anchor) = Some parent"
    "last anchor < length (kidsOf parent)" "kidsOf parent ! last anchor = pn"
    by (subst (asm) a) (auto simp: nodeAt_snoc split: option.splits if_splits)
  have "isElem parent"
  proof (rule ccontr)
    assume "\<not> isElem parent"
    then have "kidsOf parent = []" by (rule kidsOf_not_elem)
    with parent(2) show False by simp
  qed
  with ne parent pn m show ?thesis by auto
qed

text \<open>
  Claim C3. In pattern mode, when a paragraph of the base body contains the pattern in the
  concatenated text of its \<open>w:t\<close> descendants, the anchor is the first such paragraph in
  document order (no paragraph before it matches). If every source imports, the pattern stage
  succeeds and reports an anchor; the body it returns differs from the one it was given only in
  the children of the anchor's parent, which are the children before the anchor, then the nodes
  imported from the sources, in the order of the source array, as one block, then the anchor
  itself, then the children that followed it.
\<close>

theorem C3_pattern_inserts_before_first_match:
  assumes m: "findParagraphsContainingText b pat = anchor # others"
    and imp: "importAll opt srcs st = Inr (nss, st')"
    and pat: "pattern opt = Some pat" "pat \<noteq> []"
  shows "\<exists>parent ks b' pre post.
       tagPaths NS_w ''p'' b = pre @ anchor # post
     \<and> (\<forall>q \<in> set pre. \<forall>pn. nodeAt b q = Some pn \<longrightarrow> \<not> includes_str (paragraphText pn) pat)
     \<and> nodeAt b (butlast anchor) = Some parent \<and> kidsOf parent = ks \<and> last anchor < length ks
     \<and> hasTag NS_w ''p'' (ks ! last anchor) \<and> includes_str (paragraphText (ks ! last anchor)) pat
     \<and> patternStage opt srcs st (Some b) = Inr (st', Some b', True)
     \<and> b' = updAt (butlast anchor) (mapKids (\<lambda>ks. take (last anchor) ks @ concat nss @ drop (last anchor) ks)) b
     \<and> nodeAt b' (butlast anchor) =
         Some (mapKids (\<lambda>ks. take (last anchor) ks @ concat nss @ (ks ! last anchor) # drop (Suc (last anchor)) ks) parent)"
proof -
  from findParagraphs_anchor [OF m] obtain parent where ne: "anchor \<noteq> []"
    and parent: "nodeAt b (butlast anchor) = Some parent" "isElem parent"
      "last anchor < length (kidsOf parent)"
      "hasTag NS_w ''p'' (kidsOf parent ! last anchor)"
      "includes_str (paragraphText (kidsOf parent ! last anchor)) pat"
    by blast
  from m obtain pre post where first: "tagPaths NS_w ''p'' b = pre @ anchor # post"
      "\<forall>q \<in> set pre. \<not> (case nodeAt b q of None \<Rightarrow> False | Some pn \<Rightarrow> includes_str (paragraphText pn) pat)"
    unfolding findParagraphsContainingText_def filter_eq_Cons_iff by blast
  from first(2) have first': "\<forall>q \<in> set pre. \<forall>pn. nodeAt b q = Some pn \<longrightarrow> \<not> includes_str (paragraphText pn) pat"
    by auto
  let ?b' = "updAt (butlast anchor) (mapKids (\<lambda>ks. take (last anchor) ks @ concat nss @ drop (last anchor) ks)) b"
  have ins: "insertAll opt srcs st b anchor = Inr (st', ?b', butlast anchor @ [last anchor + length (concat nss)])"
    using insertAll_char [OF ne, of opt srcs st b] imp by simp
  have ps: "patternStage opt srcs st (Some b) = Inr (st', Some ?b', True)"
    using m ins pat by (simp add: patternStage_def truthy_def orEmpty_def)
  have "mapKids (\<lambda>ks. take (last anchor) ks @ concat nss @ drop (last anchor) ks) parent
      = mapKids (\<lambda>ks. take (last anchor) ks @ concat nss @ (ks ! last anchor) # drop (Suc (last anchor)) ks) parent"
    using parent(2,3) by (cases parent) (simp_all add: Cons_nth_drop_Suc)
  then have at: "nodeAt ?b' (butlast anchor) =
         Some (mapKids (\<lambda>ks. take (last anchor) ks @ concat nss @ (ks ! last anchor) # drop (Suc (last anchor)) ks) parent)"
    using nodeAt_updAt_same [OF parent(1)] by simp
  from parent ps at first(1) first' show ?thesis by blast
qed

definition exState :: "zip \<Rightarrow> base_state" where
  "exState z = \<lparr> baseZip = z, baseRels = relsSkeleton, baseCT = exContentTypes,
                 noteMapFootnotes = None, noteMapEndnotes = None \<rparr>"

definition exBody :: "xnode list \<Rightarrow> xnode" where
  "exBody ks = Elem NS_w ''w'' ''body'' [] ks"

theorem C3_pattern_witness:
  "patternStage (withDefaults (exOptions (Some ''ANCHOR'') False False))
       [exPackage [exPara ''Insert1'', exSectPr], exPackage [exPara ''Insert2'']]
       (exState (exPackage [])) (Some (exBody [exPara ''Alpha'', exPara ''ANCHOR'', exPara ''ANCHOR again'']))
     = Inr (exState (exPackage []),
            Some (exBody [exPara ''Alpha'', exPara ''Insert1'', exPara ''Insert2'', exPara ''ANCHOR'',
                          exPara ''ANCHOR again'']),
            True)"
proof -
  let ?opt = "withDefaults (exOptions (Some ''ANCHOR'') False False)"
  let ?srcs = "[exPackage [exPara ''Insert1'', exSectPr], exPackage [exPara ''Insert2'']]"
  let ?b = "exBody [exPara ''Alpha'', exPara ''ANCHOR'', exPara ''ANCHOR again'']"
  have m: "findParagraphsContainingText ?b ''ANCHOR'' = [1] # [[2]]" by code_simp
  have imp: "importAll ?opt ?srcs (exState (exPackage []))
      = Inr ([[exPara ''Insert1''], [exPara ''Insert2'']], exState (exPackage []))"
    by code_simp
  have pat: "pattern ?opt = Some ''ANCHOR''" "''ANCHOR'' \<noteq> []" by code_simp+
  from C3_pattern_inserts_before_first_match [OF m imp pat] obtain b' where
    ps: "patternStage ?opt ?srcs (exState (exPackage [])) (Some ?b) = Inr (exState (exPackage []), Some b', True)"
    and b': "b' = updAt (butlast [1]) (mapKids (\<lambda>ks. take (last [1]) ks
        @ concat [[exPara ''Insert1''], [exPara ''Insert2'']] @ drop (last [1]) ks)) ?b"
    by blast
  have "b' = exBody [exPara ''Alpha'', exPara ''Insert1'', exPara ''Insert2'', exPara ''ANCHOR'',
                          exPara ''ANCHOR again'']"
    unfolding b' by (simp add: exBody_def)
  with ps show ?thesis by simp
qed

section \<open>Start mode: what \<^verbatim>\<open>appendDocInto\<close> does with \<^verbatim>\<open>atEnd = false\<close>\<close>

text \<open>
  One call of \<^verbatim>\<open>appendDocInto\<close> extends the children of the body by \<open>appendBlock\<close>: a page
  break when page breaks are on and the body has a child, then the imported nodes.
\<close>

definition appendBlock :: "bool \<Rightarrow> xnode list \<Rightarrow> xnode list \<Rightarrow> xnode list" where
  "appendBlock pb ks ns = (if pb \<and> ks \<noteq> [] then ks @ [makePageBreak] else ks) @ ns"

lemma appendDocInto_char:
  assumes "isElem b"
  shows "appendDocInto opt z atEnd st (Some b) =
     (case importBodyNodes opt z st of
        Inl e \<Rightarrow> Inl e
      | Inr (ns, st') \<Rightarrow> Inr (st', Some (mapKids (\<lambda>ks. appendBlock (pageBreaks opt) ks ns) b)))"
proof (cases b)
  case (Elem ns pre l as ks)
  then show ?thesis
    by (auto simp: appendDocInto_def appendBlock_def appendChild_def Let_def split: sum.splits)
next
  case (Txt s)
  with assms show ?thesis by simp
next
  case (Misc s)
  with assms show ?thesis by simp
qed

lemma appendAll_char:
  assumes "isElem b"
  shows "appendAll opt zs atEnd st (Some b) =
     (case importAll opt zs st of
        Inl e \<Rightarrow> Inl e
      | Inr (nss, st') \<Rightarrow> Inr (st', Some (mapKids (\<lambda>ks. foldl (appendBlock (pageBreaks opt)) ks nss) b)))"
  using assms
proof (induction zs arbitrary: st b)
  case Nil
  then show ?case by (simp add: mapKids_id)
next
  case (Cons z zs)
  show ?case
  proof (cases "importBodyNodes opt z st")
    case (Inl e)
    then show ?thesis using Cons.prems by (simp add: appendDocInto_char)
  next
    case (Inr r)
    obtain ns st1 where r: "r = (ns, st1)" by (cases r)
    let ?b1 = "mapKids (\<lambda>ks. appendBlock (pageBreaks opt) ks ns) b"
    have e1: "isElem ?b1" using Cons.prems by (simp add: isElem_mapKids)
    have step: "appendDocInto opt z atEnd st (Some b) = Inr (st1, Some ?b1)"
      using Inr r Cons.prems by (simp add: appendDocInto_char)
    show ?thesis
      using step Inr r Cons.IH [OF e1, of st1]
      by (simp add: mapKids_mapKids split: sum.splits)
  qed
qed

lemma foldl_appendBlock_prefix: "\<exists>added. foldl (appendBlock pb) ks nss = ks @ added"
proof (induction nss arbitrary: ks)
  case Nil
  show ?case by simp
next
  case (Cons ns nss)
  from Cons [of "appendBlock pb ks ns"] obtain added where
    a: "foldl (appendBlock pb) (appendBlock pb ks ns) nss = appendBlock pb ks ns @ added" by blast
  have "appendBlock pb ks ns = ks @ ((if pb \<and> ks \<noteq> [] then [makePageBreak] else []) @ ns)"
    by (simp add: appendBlock_def)
  then obtain mid where m: "appendBlock pb ks ns = ks @ mid" by blast
  have "foldl (appendBlock pb) ks (ns # nss) = ks @ (mid @ added)"
    using a m by simp
  then show ?case by blast
qed

lemma foldl_appendBlock_plain: "foldl (appendBlock False) ks nss = ks @ concat nss"
  by (induction nss arbitrary: ks) (simp_all add: appendBlock_def)

text \<open>
  Claim C1. With \<^verbatim>\<open>insertStart\<close> set, the content of the sources is to be placed at the top
  of the base body, before every original child. The code does not do so:
  \<^verbatim>\<open>appendDocInto\<close> never reads its parameter \<^verbatim>\<open>atEnd\<close>, so the start stage is the
  end stage. When every source imports, the start stage returns the body with its original
  children first, unchanged and in place, followed by the blocks of the sources in the order of
  the source array (each preceded by a page break when page breaks are on and the body is not
  empty): all inserted content comes after every original child.
\<close>

theorem C1_insertStart_appends_after_base:
  assumes "insertStart opt" and "isElem b" and "importAll opt srcs st = Inr (nss, st')"
  shows "\<exists>b' added.
       startStage opt srcs st (Some b) = Inr (st', Some b')
     \<and> startStage opt srcs st (Some b) = appendAll opt srcs True st (Some b)
     \<and> b' = mapKids (\<lambda>ks. foldl (appendBlock (pageBreaks opt)) ks nss) b
     \<and> kidsOf b' = kidsOf b @ added
     \<and> (\<not> pageBreaks opt \<longrightarrow> added = concat nss)"
proof -
  let ?b' = "mapKids (\<lambda>ks. foldl (appendBlock (pageBreaks opt)) ks nss) b"
  have s: "startStage opt srcs st (Some b) = Inr (st', Some ?b')"
    using assms by (simp add: startStage_def appendAll_char)
  have t: "appendAll opt srcs True st (Some b) = Inr (st', Some ?b')"
    using assms by (simp add: appendAll_char)
  obtain added where a: "foldl (appendBlock (pageBreaks opt)) (kidsOf b) nss = kidsOf b @ added"
    using foldl_appendBlock_prefix by blast
  have k: "kidsOf ?b' = kidsOf b @ added" using assms(2) a by (cases b) simp_all
  have "\<not> pageBreaks opt \<longrightarrow> added = concat nss"
    using a by (auto simp: foldl_appendBlock_plain)
  with s t k show ?thesis by auto
qed

theorem C1_insertStart_witness:
  "startStage (withDefaults (exOptions None True False))
       [exPackage [exPara ''Second'', exSectPr], exPackage [exPara ''Third'']]
       (exState (exPackage [])) (Some (exBody [exPara ''Base'']))
     = Inr (exState (exPackage []), Some (exBody [exPara ''Base'', exPara ''Second'', exPara ''Third'']))"
proof -
  let ?opt = "withDefaults (exOptions None True False)"
  let ?srcs = "[exPackage [exPara ''Second'', exSectPr], exPackage [exPara ''Third'']]"
  let ?b = "exBody [exPara ''Base'']"
  have i: "insertStart ?opt" by code_simp
  have e: "isElem ?b" by code_simp
  have pb: "\<not> pageBreaks ?opt" by code_simp
  have imp: "importAll ?opt ?srcs (exState (exPackage []))
      = Inr ([[exPara ''Second''], [exPara ''Third'']], exState (exPackage []))"
    by code_simp
  from C1_insertStart_appends_after_base [OF i e imp] pb obtain b' where
    ps: "startStage ?opt ?srcs (exState (exPackage [])) (Some ?b) = Inr (exState (exPackage []), Some b')"
    and b': "kidsOf b' = kidsOf ?b @ concat [[exPara ''Second''], [exPara ''Third'']]"
    and b'': "b' = mapKids (\<lambda>ks. foldl (appendBlock (pageBreaks ?opt)) ks [[exPara ''Second''], [exPara ''Third'']]) ?b"
    by blast
  from b'' b' have "b' = exBody [exPara ''Base'', exPara ''Second'', exPara ''Third'']"
    by (simp add: exBody_def)
  with ps show ?thesis by simp
qed

text \<open>
  The whole merge on a base \<open>Base\<close> and two sources, with only \<^verbatim>\<open>insertStart\<close> set: the
  output body is \<open>Base, Second, Third\<close> and the section properties, not
  \<open>Second, Third, Base\<close>.
\<close>

theorem C1_insertStart_example:
  "(case snd (mergeDocx [exPackage [exPara ''Base'', exSectPr], exPackage [exPara ''Second''],
                         exPackage [exPara ''Third'']]
                (exOptions None True False)) of
      Inl e \<Rightarrow> None
    | Inr z \<Rightarrow> map_of z P_document)
   = Some (Xml (exDocument [exPara ''Base'', exPara ''Second'', exPara ''Third'', exSectPr]))"
  by code_simp

section \<open>A relationship whose payload is missing\<close>

text \<open>The merge logs one warning only, the one of the pattern stage.\<close>

lemma warnings_of_mergeDocx:
  "(m, Warn) \<in> set (fst (mergeDocx ins opts)) \<Longrightarrow> m = ''Pattern not found in base document''"
  by (auto simp: mergeDocx_def Let_def split: if_splits sum.splits prod.splits)

text \<open>
  Claim C9. Resolving a relationship of image type whose payload is absent from the source
  package does not fail. As amended: for an image relationship, and as well for every other
  relationship that is not a hyperlink, when the base set has no equivalent entry and the part
  the target names is absent from the source package, the resolver returns the newly allocated
  ID and changes nothing in the base package but the relationship set, to which it adds one
  entry with that ID, the type, the original target and the target mode of the source entry.
  When the numbers in the IDs of the base set are below \<open>2^53\<close>, where the doubles of the
  allocator are the integers of the model, no entry of the base set carries the new ID. No
  warning is surfaced: the resolver has no access to the
  logging callback, and the only warning a merge ever logs is the one for a pattern that was
  not found.
\<close>

theorem C9_missing_payload_degrades_silently:
  assumes rid: "oldRid \<noteq> []"
    and src: "findRelationshipById srcRels oldRid = Some srcRel"
    and ty: "getAttribute srcRel ''Type'' = Some ty" "\<not> endsWith ty ''/hyperlink''"
    and mode: "mode = (if truthy (getAttribute srcRel ''TargetMode'') then getAttribute srcRel ''TargetMode'' else None)"
    and new: "findRelationshipByTypeAndTarget (baseRels st) (Some ty) (getAttribute srcRel ''Target'') mode = None"
    and missing: "map_of srcZip
        (if endsWith ty ''/image''
         then canonicalizeMediaPath (normalizePath P_document (jsStr (getAttribute srcRel ''Target'')))
         else normalizePath P_document (jsStr (getAttribute srcRel ''Target''))) = None"
    and bound: "ridMax 0 (docElementsByTagNameNS (baseRels st) NS_pr ''Relationship'') < 2 ^ 53"
  shows "\<exists>newId.
        remapRelationship oldRid srcRels srcZip st =
          Inr (Some newId,
               st\<lparr>baseRels := addRelationship (baseRels st) newId (Some ty) (getAttribute srcRel ''Target'') mode\<rparr>)
      \<and> newId = makeRidAllocator (baseRels st)
      \<and> Some newId \<notin> set (relIds (baseRels st))
      \<and> (\<exists>n. ridNumber (Some newId) = Some n \<and> 0 < n \<and> n \<le> 2 ^ 53)
      \<and> (\<forall>ins opts m. (m, Warn) \<in> set (fst (mergeDocx ins opts)) \<longrightarrow> m = ''Pattern not found in base document'')"
proof -
  let ?newId = "makeRidAllocator (baseRels st)"
  have r: "remapRelationship oldRid srcRels srcZip st =
          Inr (Some ?newId,
               st\<lparr>baseRels := addRelationship (baseRels st) ?newId (Some ty) (getAttribute srcRel ''Target'') mode\<rparr>)"
  proof (cases "endsWith ty ''/image''")
    case True
    with rid src ty new missing show ?thesis
      unfolding remapRelationship_def mode by (simp add: Let_def)
  next
    case False
    with rid src ty new missing show ?thesis
      unfolding remapRelationship_def mode by (simp add: Let_def)
  qed
  have f: "Some ?newId \<notin> set (relIds (baseRels st))" by (rule makeRidAllocator_fresh)
  have "0 \<le> ridMax 0 (docElementsByTagNameNS (baseRels st) NS_pr ''Relationship'')" by (rule ridMax0_nonneg)
  then have "0 < ridMax 0 (docElementsByTagNameNS (baseRels st) NS_pr ''Relationship'') + 1
      \<and> ridMax 0 (docElementsByTagNameNS (baseRels st) NS_pr ''Relationship'') + 1 \<le> 2 ^ 53"
    using bound by simp
  with ridNumber_makeRidAllocator [of "baseRels st"]
  have "ridNumber (Some ?newId) = Some (ridMax 0 (docElementsByTagNameNS (baseRels st) NS_pr ''Relationship'') + 1)
      \<and> 0 < ridMax 0 (docElementsByTagNameNS (baseRels st) NS_pr ''Relationship'') + 1
      \<and> ridMax 0 (docElementsByTagNameNS (baseRels st) NS_pr ''Relationship'') + 1 \<le> 2 ^ 53"
    by (rule conjI)
  then have n: "\<exists>n. ridNumber (Some ?newId) = Some n \<and> 0 < n \<and> n \<le> 2 ^ 53"
    by (rule exI [of _ "ridMax 0 (docElementsByTagNameNS (baseRels st) NS_pr ''Relationship'') + 1"])
  have w: "\<forall>ins opts m. (m, Warn) \<in> set (fst (mergeDocx ins opts)) \<longrightarrow> m = ''Pattern not found in base document''"
    by (intro allI impI) (rule warnings_of_mergeDocx)
  show ?thesis
  proof (rule exI [of _ ?newId], intro conjI)
    show "remapRelationship oldRid srcRels srcZip st =
          Inr (Some ?newId,
               st\<lparr>baseRels := addRelationship (baseRels st) ?newId (Some ty) (getAttribute srcRel ''Target'') mode\<rparr>)"
      by (rule r)
    show "?newId = makeRidAllocator (baseRels st)" by (rule refl)
    show "Some ?newId \<notin> set (relIds (baseRels st))" by (rule f)
    show "\<exists>n. ridNumber (Some ?newId) = Some n \<and> 0 < n \<and> n \<le> 2 ^ 53" by (rule n)
    show "\<forall>ins opts m. (m, Warn) \<in> set (fst (mergeDocx ins opts)) \<longrightarrow> m = ''Pattern not found in base document''"
      by (rule w)
  qed
qed

definition exImageType :: string where
  "exImageType = ''http://schemas.openxmlformats.org/officeDocument/2006/relationships/image''"

definition exChartType :: string where
  "exChartType = ''http://schemas.openxmlformats.org/officeDocument/2006/relationships/chart''"

definition exSrcRels :: xnode where
  "exSrcRels = Elem NS_pr [] ''Relationships'' []
     [Elem NS_pr [] ''Relationship''
        [Attr [] [] ''Id'' ''rId1'', Attr [] [] ''Type'' exImageType, Attr [] [] ''Target'' ''media/image1.png''] [],
      Elem NS_pr [] ''Relationship''
        [Attr [] [] ''Id'' ''rId2'', Attr [] [] ''Type'' exChartType, Attr [] [] ''Target'' ''charts/chart1.xml''] []]"

definition exPicture :: "string \<Rightarrow> xnode" where
  "exPicture rid = Elem NS_w ''w'' ''p'' [] [Elem NS_w ''w'' ''r'' [] [Elem NS_w ''w'' ''pict'' [Attr NS_r ''r'' ''id'' rid] []]]"

definition exImagePackage :: zip where
  "exImagePackage = [(P_ct, Xml exContentTypes), (P_document, Xml (exDocument [exPicture ''rId1''])),
                     (P_docRels, Xml exSrcRels)]"

definition exNewRel :: "string \<Rightarrow> string \<Rightarrow> string \<Rightarrow> xnode" where
  "exNewRel i ty tg = Elem NS_pr [] ''Relationship''
      [Attr [] [] ''Id'' i, Attr [] [] ''Type'' ty, Attr [] [] ''Target'' tg] []"

theorem C9_missing_payload_witness:
  "remapRelationship ''rId1'' exSrcRels exImagePackage (exState (exPackage []))
     = Inr (Some ''rId1'',
            (exState (exPackage []))\<lparr>baseRels := appendChild relsSkeleton (exNewRel ''rId1'' exImageType ''media/image1.png'')\<rparr>)
   \<and> map_of exImagePackage ''word/media/image1.png'' = None"
proof -
  let ?st = "exState (exPackage [])"
  let ?rel = "Elem NS_pr [] ''Relationship''
        [Attr [] [] ''Id'' ''rId1'', Attr [] [] ''Type'' exImageType, Attr [] [] ''Target'' ''media/image1.png''] []"
  have rid: "''rId1'' \<noteq> []" by simp
  have src: "findRelationshipById exSrcRels ''rId1'' = Some ?rel" by code_simp
  have ty: "getAttribute ?rel ''Type'' = Some exImageType" "\<not> endsWith exImageType ''/hyperlink''" by code_simp+
  have tg: "getAttribute ?rel ''Target'' = Some ''media/image1.png''" by code_simp
  have mode: "None = (if truthy (getAttribute ?rel ''TargetMode'') then getAttribute ?rel ''TargetMode'' else None)"
    by code_simp
  have new: "findRelationshipByTypeAndTarget (baseRels ?st) (Some exImageType) (getAttribute ?rel ''Target'') None = None"
    by code_simp
  have path: "(if endsWith exImageType ''/image''
         then canonicalizeMediaPath (normalizePath P_document (jsStr (getAttribute ?rel ''Target'')))
         else normalizePath P_document (jsStr (getAttribute ?rel ''Target''))) = ''word/media/image1.png''"
    by code_simp
  have absent: "map_of exImagePackage ''word/media/image1.png'' = None" by code_simp
  have missing: "map_of exImagePackage
        (if endsWith exImageType ''/image''
         then canonicalizeMediaPath (normalizePath P_document (jsStr (getAttribute ?rel ''Target'')))
         else normalizePath P_document (jsStr (getAttribute ?rel ''Target''))) = None"
    unfolding path by (rule absent)
  have n: "makeRidAllocator (baseRels ?st) = ''rId1''" by code_simp
  have a: "addRelationship (baseRels ?st) ''rId1'' (Some exImageType) (Some ''media/image1.png'') None
      = appendChild relsSkeleton (exNewRel ''rId1'' exImageType ''media/image1.png'')"
    by code_simp
  have bound: "ridMax 0 (docElementsByTagNameNS (baseRels ?st) NS_pr ''Relationship'') < 2 ^ 53"
    by code_simp
  from C9_missing_payload_degrades_silently [OF rid src ty mode new missing bound]
  obtain newId where
    e1: "remapRelationship ''rId1'' exSrcRels exImagePackage ?st =
          Inr (Some newId,
               ?st\<lparr>baseRels := addRelationship (baseRels ?st) newId
                    (Some exImageType) (getAttribute ?rel ''Target'') None\<rparr>)"
    and e2: "newId = makeRidAllocator (baseRels ?st)"
    by (elim exE conjE)
  from e1 have "remapRelationship ''rId1'' exSrcRels exImagePackage ?st =
          Inr (Some (makeRidAllocator (baseRels ?st)),
               ?st\<lparr>baseRels := addRelationship (baseRels ?st) (makeRidAllocator (baseRels ?st))
                    (Some exImageType) (getAttribute ?rel ''Target'') None\<rparr>)"
    unfolding e2 .
  then have "remapRelationship ''rId1'' exSrcRels exImagePackage ?st
     = Inr (Some ''rId1'', ?st\<lparr>baseRels := appendChild relsSkeleton (exNewRel ''rId1'' exImageType ''media/image1.png'')\<rparr>)"
    unfolding n tg a .
  with absent show ?thesis by (intro conjI)
qed

text \<open>
  A merge at the end of a source whose only picture refers to the missing
  \<^verbatim>\<open>word/media/image1.png\<close>: it succeeds, the relationship is added, and the log holds no
  warning. A chart relationship whose part is missing is resolved the same way, so the image
  is not the only case that degrades.
\<close>

theorem C9_no_warning_example:
  "mergeDocx [exPackage [exPara ''Base''], exImagePackage] (exOptions None False True)
     = ([(''Reading 2 DOCX files ...'', Info), (''Packaging merged .docx ...'', Info), (''Done.'', Info)],
        Inr [(P_ct, Xml exContentTypes),
             (P_document, Xml (exDocument [exPara ''Base'', exPicture ''rId1''])),
             (P_docRels, Xml (appendChild relsSkeleton (exNewRel ''rId1'' exImageType ''media/image1.png'')))])
   \<and> remapRelationship ''rId2'' exSrcRels exImagePackage (exState (exPackage []))
     = Inr (Some ''rId1'',
            (exState (exPackage []))\<lparr>baseRels := appendChild relsSkeleton (exNewRel ''rId1'' exChartType ''charts/chart1.xml'')\<rparr>)"
  by code_simp

section \<open>References that do not resolve, and entries the base already has\<close>














section \<open>Numbering: every reference resolves in the merged table\<close>












text \<open>The copy of an instance: its new ID, and the abstract ID it refers to sent through the map.\<close>

definition copyNum :: "idmap \<Rightarrow> jsnum \<Rightarrow> xnode \<Rightarrow> xnode" where
  "copyNum A new num =
     (let num1 = setAttributeNS num NS_w ''w'' ''numId'' (jsString new)
      in case tagPaths NS_w ''abstractNumId'' num1 of
           [] \<Rightarrow> num1
         | r # rs \<Rightarrow>
             (case nodeAt num1 r of
                None \<Rightarrow> num1
              | Some a \<Rightarrow>
                  let oldAbs = toNumber (attrChain a ''val'' ''w:val'' ''val'' ''0'');
                      newAbs = (case map_of A oldAbs of None \<Rightarrow> oldAbs | Some v \<Rightarrow> v)
                  in updAt r (\<lambda>n. setAttributeNS n NS_w ''w'' ''val'' (jsString newAbs)) num1))"













text \<open>The IDs of the base table as the merge reads them to seed the two counters.\<close>

definition baseAbsIds :: "xnode \<Rightarrow> jsnum list" where
  "baseAbsIds baseRoot =
     map (\<lambda>x. toNumber (attrChain x ''abstractNumId'' ''w:abstractNumId'' ''w:abstractNumId'' ''0''))
       (elementsByTagNameNS baseRoot NS_w ''abstractNum'')"

definition baseNumIds :: "xnode \<Rightarrow> jsnum list" where
  "baseNumIds baseRoot =
     map (\<lambda>x. toNumber (attrChain x ''numId'' ''w:numId'' ''w:numId'' ''0''))
       (elementsByTagNameNS baseRoot NS_w ''num'')"








lemma tagPaths_setAttributeNS: "tagPaths ns l (setAttributeNS n t pre u v) = tagPaths ns l n"
  using tagPaths_updAt_attrs [of ns l "[]" "setAttrNS t pre u v" n] by (simp add: setAttributeNS_def)


lemma tagPaths_cons_nonempty: "tagPaths ns l n = r # rs \<Longrightarrow> r \<noteq> []"
proof -
  assume "tagPaths ns l n = r # rs"
  then have "r \<in> set (tagPaths ns l n)" by simp
  then have "r \<in> set (descPaths n)" by (simp add: tagPaths_def)
  then show ?thesis by (rule descPaths_nonempty)
qed


lemma hasTag_updAt_nonempty: "r \<noteq> [] \<Longrightarrow> hasTag t u (updAt r f n) = hasTag t u n"
  by (cases r) simp_all

lemma nodeAt_setAttributeNS: "r \<noteq> [] \<Longrightarrow> nodeAt (setAttributeNS n t pre u v) r = nodeAt n r"
  by (cases r) (simp_all add: setAttributeNS_def)

lemma copyNum_shape:
  "(tagPaths NS_w ''abstractNumId'' num = []
      \<and> copyNum A new num = setAttributeNS num NS_w ''w'' ''numId'' (jsString new))
   \<or> (\<exists>r rs a. tagPaths NS_w ''abstractNumId'' num = r # rs \<and> r \<noteq> [] \<and> nodeAt num r = Some a
        \<and> hasTag NS_w ''abstractNumId'' a
        \<and> copyNum A new num =
            updAt r (\<lambda>n. setAttributeNS n NS_w ''w'' ''val''
                (jsString (case map_of A (toNumber (attrChain a ''val'' ''w:val'' ''val'' ''0'')) of
                             None \<Rightarrow> toNumber (attrChain a ''val'' ''w:val'' ''val'' ''0'') | Some w \<Rightarrow> w)))
              (setAttributeNS num NS_w ''w'' ''numId'' (jsString new)))"
proof (cases "tagPaths NS_w ''abstractNumId'' num")
  case Nil
  then show ?thesis by (simp add: copyNum_def Let_def tagPaths_setAttributeNS)
next
  case (Cons r rs)
  then have r: "r \<noteq> []" by (rule tagPaths_cons_nonempty)
  have "r \<in> set (tagPaths NS_w ''abstractNumId'' num)" using Cons by simp
  from tagPaths_valid [OF this] obtain a where a: "nodeAt num r = Some a" "hasTag NS_w ''abstractNumId'' a"
    by (elim exE conjE)
  have "copyNum A new num =
            updAt r (\<lambda>n. setAttributeNS n NS_w ''w'' ''val''
                (jsString (case map_of A (toNumber (attrChain a ''val'' ''w:val'' ''val'' ''0'')) of
                             None \<Rightarrow> toNumber (attrChain a ''val'' ''w:val'' ''val'' ''0'') | Some w \<Rightarrow> w)))
              (setAttributeNS num NS_w ''w'' ''numId'' (jsString new))"
    using Cons a r by (simp add: copyNum_def Let_def tagPaths_setAttributeNS nodeAt_setAttributeNS)
  with Cons r a show ?thesis by blast
qed




lemma hasTag_copyNum [simp]: "hasTag t u (copyNum A new num) = hasTag t u num"
  using copyNum_shape [of num A new] by (auto simp: hasTag_updAt_nonempty)







subsection \<open>The entries of the merged table\<close>



lemma elements_setAttributeNS [simp]:
  "elementsByTagNameNS (setAttributeNS n t pre u v) ns l = elementsByTagNameNS n ns l"
  by (cases n) (simp_all add: elementsByTagNameNS_def setAttributeNS_def)















subsection \<open>The references of the body\<close>

text \<open>
  The tree without its attributes and texts. The positions \<^verbatim>\<open>remapNumberingInBody\<close> visits
  depend on it only, and a rewrite of an attribute keeps it.
\<close>

fun skel :: "xnode \<Rightarrow> xnode" where
  "skel (Elem ns pre l as ks) = Elem ns pre l [] (map skel ks)"
| "skel (Txt s) = Txt []"
| "skel (Misc s) = Misc []"

lemma isElem_skel [simp]: "isElem (skel n) = isElem n"
  by (cases n) simp_all

lemma hasTag_skel [simp]: "hasTag ns l (skel n) = hasTag ns l n"
  by (cases n) simp_all







lemma skel_mapAttrs [simp]: "skel (mapAttrs g n) = skel n"
  by (cases n) simp_all





























end
